theory Spec2Isabelle
  imports Main
begin

section \<open>Values of the rule documents\<close>

text \<open>
  Rule documents, node properties, telemetry values and the execution context hold
  JSON-like Python values. The model covers \<open>None\<close>, booleans, integers, strings, lists
  and string-keyed mappings (an association list with distinct keys). Floating-point
  numbers are outside the model. Strings are byte strings of ASCII text.
\<close>

datatype pyval =
    PyNone
  | PyBool bool
  | PyInt int
  | PyStr string
  | PyList "pyval list"
  | PyDict "(string \<times> pyval) list"

text \<open>
  The exceptions and error messages the engine can put into an \<open>error\<close> field. The
  source stores \<open>str(e)\<close>; the model keeps the exception itself.
\<close>

datatype error =
    KeyError string
  | TypeError
  | ValueError
  | No_topic_specified
  | Publish_failed
  | No_value_available
  | Unknown_operation
  | Type_conversion_failed

subsection \<open>Truth value, equality, ordering and membership of Python values\<close>

text \<open>\<open>bool(v)\<close>: what \<open>if v\<close>, \<open>not v\<close>, \<open>all\<close> and \<open>any\<close> test.\<close>

fun truthy :: "pyval \<Rightarrow> bool" where
  "truthy PyNone = False"
| "truthy (PyBool b) = b"
| "truthy (PyInt i) = (i \<noteq> 0)"
| "truthy (PyStr s) = (s \<noteq> [])"
| "truthy (PyList xs) = (xs \<noteq> [])"
| "truthy (PyDict kvs) = (kvs \<noteq> [])"

text \<open>\<open>bool\<close> is a subclass of \<open>int\<close>: \<open>True\<close> and \<open>False\<close> compare as 1 and 0.\<close>

fun num_of :: "pyval \<Rightarrow> int option" where
  "num_of (PyBool b) = Some (if b then 1 else 0)"
| "num_of (PyInt i) = Some i"
| "num_of _ = None"

text \<open>
  \<open>x == y\<close>. Lists are equal when they have equal length and equal items; mappings when
  they have as many keys and every key of the left one has an equal value in the right
  one. Values of different kinds are unequal; \<open>==\<close> never raises on these values.
\<close>

fun py_eq :: "pyval \<Rightarrow> pyval \<Rightarrow> bool"
  and list_eq :: "pyval list \<Rightarrow> pyval list \<Rightarrow> bool"
  and items_eq :: "(string \<times> pyval) list \<Rightarrow> (string \<times> pyval) list \<Rightarrow> bool"
  and item_in :: "string \<Rightarrow> pyval \<Rightarrow> (string \<times> pyval) list \<Rightarrow> bool" where
  "py_eq PyNone y = (y = PyNone)"
| "py_eq (PyBool b) y = (num_of y = Some (if b then 1 else 0))"
| "py_eq (PyInt i) y = (num_of y = Some i)"
| "py_eq (PyStr s) y = (y = PyStr s)"
| "py_eq (PyList xs) y = (case y of PyList ys \<Rightarrow> list_eq xs ys | _ \<Rightarrow> False)"
| "py_eq (PyDict xs) y =
     (case y of PyDict ys \<Rightarrow> length xs = length ys \<and> items_eq xs ys | _ \<Rightarrow> False)"
| "list_eq [] ys = (ys = [])"
| "list_eq (x # xs) ys =
     (case ys of [] \<Rightarrow> False | y # ys' \<Rightarrow> py_eq x y \<and> list_eq xs ys')"
| "items_eq [] ys = True"
| "items_eq ((k, v) # xs) ys = (item_in k v ys \<and> items_eq xs ys)"
| "item_in k v [] = False"
| "item_in k v ((k', w) # ys) = (if k = k' then py_eq v w else item_in k v ys)"

text \<open>Strings are ordered lexicographically by code point.\<close>

fun str_lt :: "string \<Rightarrow> string \<Rightarrow> bool" where
  "str_lt [] t = (t \<noteq> [])"
| "str_lt (c # s) [] = False"
| "str_lt (c # s) (d # t) =
     (if c = d then str_lt s t else (of_char c :: nat) < of_char d)"

text \<open>
  \<open>x < y\<close> (\<open>strict\<close>) and \<open>x <= y\<close>. Numbers compare with numbers, strings with strings,
  lists with lists; every other pair raises \<open>TypeError\<close>. Two lists are compared at their
  first unequal items; when one is a prefix of the other the shorter is smaller.
\<close>

fun py_ord :: "bool \<Rightarrow> pyval \<Rightarrow> pyval \<Rightarrow> error + bool"
  and list_ord :: "bool \<Rightarrow> pyval list \<Rightarrow> pyval list \<Rightarrow> error + bool" where
  "py_ord strict x y =
     (case x of
        PyList xs \<Rightarrow> (case y of PyList ys \<Rightarrow> list_ord strict xs ys | _ \<Rightarrow> Inl TypeError)
      | PyStr s \<Rightarrow>
          (case y of
             PyStr t \<Rightarrow> Inr (if strict then str_lt s t else s = t \<or> str_lt s t)
           | _ \<Rightarrow> Inl TypeError)
      | _ \<Rightarrow>
          (case num_of x of
             None \<Rightarrow> Inl TypeError
           | Some a \<Rightarrow>
               (case num_of y of
                  None \<Rightarrow> Inl TypeError
                | Some b \<Rightarrow> Inr (if strict then a < b else a \<le> b))))"
| "list_ord strict [] ys = Inr (if strict then ys \<noteq> [] else True)"
| "list_ord strict (x # xs) [] = Inr False"
| "list_ord strict (x # xs) (y # ys) =
     (if py_eq x y then list_ord strict xs ys else py_ord strict x y)"

definition py_lt :: "pyval \<Rightarrow> pyval \<Rightarrow> error + bool" where
  "py_lt x y = py_ord True x y"

definition py_le :: "pyval \<Rightarrow> pyval \<Rightarrow> error + bool" where
  "py_le x y = py_ord False x y"

definition py_gt :: "pyval \<Rightarrow> pyval \<Rightarrow> error + bool" where
  "py_gt x y = py_ord True y x"

definition py_ge :: "pyval \<Rightarrow> pyval \<Rightarrow> error + bool" where
  "py_ge x y = py_ord False y x"

fun starts_with :: "string \<Rightarrow> string \<Rightarrow> bool" where
  "starts_with s [] = True"
| "starts_with [] (d # t) = False"
| "starts_with (c # s) (d # t) = (c = d \<and> starts_with s t)"

fun is_substring :: "string \<Rightarrow> string \<Rightarrow> bool" where
  "is_substring t [] = (t = [])"
| "is_substring t (c # s) = (starts_with (c # s) t \<or> is_substring t s)"

text \<open>Lists and mappings cannot be hashed: using one as a dictionary key raises.\<close>

fun hashable :: "pyval \<Rightarrow> bool" where
  "hashable (PyList xs) = False"
| "hashable (PyDict kvs) = False"
| "hashable v = True"

text \<open>
  \<open>y in x\<close>: substring of a string (both must be strings), item of a list, key of a
  mapping; any other container raises \<open>TypeError\<close>.
\<close>

fun py_in :: "pyval \<Rightarrow> pyval \<Rightarrow> error + bool" where
  "py_in y (PyStr s) = (case y of PyStr t \<Rightarrow> Inr (is_substring t s) | _ \<Rightarrow> Inl TypeError)"
| "py_in y (PyList xs) = Inr (list_ex (\<lambda>e. py_eq e y) xs)"
| "py_in y (PyDict kvs) =
     (if \<not> hashable y then Inl TypeError
      else case y of PyStr k \<Rightarrow> Inr (map_of kvs k \<noteq> None) | _ \<Rightarrow> Inr False)"
| "py_in y x = Inl TypeError"

section \<open>The rule model\<close>

datatype NodeType = GET_DATA | COMPARE | AND | OR | PUBLISH | END

datatype Operation =
    GREATER_THAN | GREATER_EQUAL | LESS_THAN | LESS_EQUAL
  | EQUALS | NOT_EQUALS | CONTAINS | NOT_CONTAINS

text \<open>\<open>NodeType(s)\<close> and \<open>Operation(s)\<close>: the member with that value, else \<open>ValueError\<close>.\<close>

definition NodeType_of :: "string \<Rightarrow> error + NodeType" where
  "NodeType_of s =
     (if s = ''get_data'' then Inr GET_DATA
      else if s = ''compare'' then Inr COMPARE
      else if s = ''and'' then Inr AND
      else if s = ''or'' then Inr OR
      else if s = ''publish'' then Inr PUBLISH
      else if s = ''end'' then Inr END
      else Inl ValueError)"

definition Operation_of :: "pyval \<Rightarrow> error + Operation" where
  "Operation_of v =
     (if v = PyStr ''>'' then Inr GREATER_THAN
      else if v = PyStr ''>='' then Inr GREATER_EQUAL
      else if v = PyStr ''<'' then Inr LESS_THAN
      else if v = PyStr ''<='' then Inr LESS_EQUAL
      else if v = PyStr ''=='' then Inr EQUALS
      else if v = PyStr ''!='' then Inr NOT_EQUALS
      else if v = PyStr ''contains'' then Inr CONTAINS
      else if v = PyStr ''not_contains'' then Inr NOT_CONTAINS
      else Inl ValueError)"

record Node =
  node_id :: string
  node_type :: NodeType
  node_properties :: "string \<rightharpoonup> pyval"
  node_next :: "string list"
  node_next_true :: "string list"
  node_next_false :: "string list"

text \<open>
  A node as it stands in a rule document: every key may be missing, and \<open>type\<close> is still
  a string.
\<close>

record node_doc =
  d_id :: "string option"
  d_type :: "string option"
  d_properties :: "(string \<rightharpoonup> pyval) option"
  d_next :: "string list option"
  d_next_true :: "string list option"
  d_next_false :: "string list option"

text \<open>
  \<open>Node.from_dict\<close>: \<open>id\<close> and \<open>type\<close> are required (\<open>KeyError\<close>), the type must be one of
  the six node types (\<open>ValueError\<close>), everything else has a default.
\<close>

definition from_dict :: "node_doc \<Rightarrow> error + Node" where
  "from_dict data =
     (case d_id data of
        None \<Rightarrow> Inl (KeyError ''id'')
      | Some i \<Rightarrow>
          (case d_type data of
             None \<Rightarrow> Inl (KeyError ''type'')
           | Some t \<Rightarrow>
               (case NodeType_of t of
                  Inl e \<Rightarrow> Inl e
                | Inr ty \<Rightarrow>
                    Inr \<lparr>node_id = i, node_type = ty,
                         node_properties = (case d_properties data of None \<Rightarrow> Map.empty | Some p \<Rightarrow> p),
                         node_next = (case d_next data of None \<Rightarrow> [] | Some n \<Rightarrow> n),
                         node_next_true = (case d_next_true data of None \<Rightarrow> [] | Some n \<Rightarrow> n),
                         node_next_false = (case d_next_false data of None \<Rightarrow> [] | Some n \<Rightarrow> n)\<rparr>)))"

text \<open>
  A stored \<open>last_run\<close>: missing; a text that \<open>datetime.fromisoformat\<close> rejects; an
  ISO-8601 text without a UTC offset, as the engine writes it (\<open>Stamp\<close>, a naive
  datetime); or one with a UTC offset, as the default of the backend's \<open>ActionFlow\<close> has
  it (\<open>AwareStamp\<close>, an aware datetime). The model holds a text that parses as the
  instant it denotes, in microseconds.
\<close>

datatype stamp = NoStamp | BadStamp | Stamp int | AwareStamp int

record rule_doc =
  r_id :: "string option"
  r_name :: "string option"
  r_description :: "string option"
  r_enabled :: "bool option"
  r_interval :: "int option"
  r_last_run :: stamp
  r_start_node :: "string option"
  r_nodes :: "node_doc list option"

text \<open>
  The \<open>details\<close> of a node result: a mapping of diagnostics, or \<open>{'error': ...}\<close>.
\<close>

datatype details = Details "(string \<times> pyval) list" | Error_details error

record NodeResult =
  success :: bool
  result_value :: pyval
  details :: details

text \<open>One entry of \<open>node_results\<close>, the trace of a run.\<close>

record outcome =
  o_node_id :: string
  o_type :: string
  o_result :: pyval
  o_details :: details

section \<open>The engine and what it talks to\<close>

text \<open>
  The telemetry store gives, for a collection of messages, the \<open>value\<close> field of its
  newest document (\<open>None\<close>: no document, or the read raised). The publisher accepts an
  action request or raises.
\<close>

record env =
  store :: "string \<rightharpoonup> pyval"
  dispatch :: "pyval \<Rightarrow> pyval \<Rightarrow> bool"

text \<open>
  What one run builds up: the execution context, the trace, and the action requests it
  handed to the publisher.
\<close>

record run =
  execution_context :: "string \<rightharpoonup> pyval"
  results :: "outcome list"
  published :: "(pyval \<times> pyval) list"

definition replace :: "char \<Rightarrow> string \<Rightarrow> string \<Rightarrow> string" where
  "replace c r s = concat (map (\<lambda>x. if x = c then r else [x]) s)"

definition safe_topic_id :: "string \<Rightarrow> string" where
  "safe_topic_id topic =
     replace CHR ''+'' ''plus'' (replace CHR ''#'' ''hash''
       (replace CHR ''.'' ''_'' (replace CHR ''/'' ''_'' topic)))"

text \<open>
  \<open>get_latest_value\<close>: a topic that is not a string has no \<open>replace\<close>; the exception is
  caught and the value is \<open>None\<close>, as it is when the collection has no document.
\<close>

definition get_latest_value :: "env \<Rightarrow> pyval \<Rightarrow> pyval" where
  "get_latest_value e topic =
     (case topic of
        PyStr t \<Rightarrow>
          (case store e (''mqtt_values/'' @ safe_topic_id t @ ''/messages'') of
             None \<Rightarrow> PyNone
           | Some v \<Rightarrow> v)
      | _ \<Rightarrow> PyNone)"

text \<open>\<open>d.get(k)\<close> on the properties of a node.\<close>

definition prop_get :: "Node \<Rightarrow> string \<Rightarrow> pyval" where
  "prop_get node k = (case node_properties node k of None \<Rightarrow> PyNone | Some v \<Rightarrow> v)"

definition failed :: "error \<Rightarrow> NodeResult" where
  "failed e = \<lparr>success = False, result_value = PyNone, details = Error_details e\<rparr>"

definition execute_get_data_node :: "env \<Rightarrow> Node \<Rightarrow> NodeResult" where
  "execute_get_data_node e node =
     (let topic = prop_get node ''topic'' in
      if \<not> truthy topic then failed No_topic_specified
      else
        let v = get_latest_value e topic in
        \<lparr>success = (v \<noteq> PyNone), result_value = v,
         details = Details [(''topic'', topic), (''value'', v)]\<rparr>)"

text \<open>
  \<open>ref in self.execution_context\<close> and \<open>self.execution_context.get(ref)\<close>. The keys of
  the context are node ids, which are strings.
\<close>

definition ctx_contains :: "(string \<rightharpoonup> pyval) \<Rightarrow> pyval \<Rightarrow> error + bool" where
  "ctx_contains ctx ref =
     (if \<not> hashable ref then Inl TypeError
      else case ref of PyStr k \<Rightarrow> Inr (ctx k \<noteq> None) | _ \<Rightarrow> Inr False)"

definition ctx_get :: "(string \<rightharpoonup> pyval) \<Rightarrow> pyval \<Rightarrow> error + pyval" where
  "ctx_get ctx ref =
     (if \<not> hashable ref then Inl TypeError
      else case ref of
             PyStr k \<Rightarrow> Inr (case ctx k of None \<Rightarrow> PyNone | Some v \<Rightarrow> v)
           | _ \<Rightarrow> Inr PyNone)"

text \<open>An input of a COMPARE node: the context entry of that name if there is one, else the value itself.\<close>

definition resolve :: "(string \<rightharpoonup> pyval) \<Rightarrow> pyval \<Rightarrow> error + pyval" where
  "resolve ctx ref =
     (case ctx_contains ctx ref of
        Inl e \<Rightarrow> Inl e
      | Inr True \<Rightarrow> ctx_get ctx ref
      | Inr False \<Rightarrow> Inr ref)"

text \<open>The table \<open>ops\<close>: each operator applied to \<open>(x, y)\<close>.\<close>

fun ops :: "Operation \<Rightarrow> pyval \<Rightarrow> pyval \<Rightarrow> error + bool" where
  "ops GREATER_THAN x y = py_gt x y"
| "ops GREATER_EQUAL x y = py_ge x y"
| "ops LESS_THAN x y = py_lt x y"
| "ops LESS_EQUAL x y = py_le x y"
| "ops EQUALS x y = Inr (py_eq x y)"
| "ops NOT_EQUALS x y = Inr (\<not> py_eq x y)"
| "ops CONTAINS x y = py_in y x"
| "ops NOT_CONTAINS x y = map_sum id Not (py_in y x)"

fun Operation_value :: "Operation \<Rightarrow> string" where
  "Operation_value GREATER_THAN = ''>''"
| "Operation_value GREATER_EQUAL = ''>=''"
| "Operation_value LESS_THAN = ''<''"
| "Operation_value LESS_EQUAL = ''<=''"
| "Operation_value EQUALS = ''==''"
| "Operation_value NOT_EQUALS = ''!=''"
| "Operation_value CONTAINS = ''contains''"
| "Operation_value NOT_CONTAINS = ''not_contains''"

text \<open>
  \<open>execute_compare_node\<close>. Every exception inside the \<open>try\<close> (a missing property, an
  unhashable input, an unknown operator, operands the operator cannot compare) becomes a
  failed result. The operands are used as they are: nothing converts one to the type of
  the other.
\<close>

definition execute_compare_node :: "(string \<rightharpoonup> pyval) \<Rightarrow> Node \<Rightarrow> NodeResult" where
  "execute_compare_node ctx node =
     (case node_properties node ''input1'' of
        None \<Rightarrow> failed (KeyError ''input1'')
      | Some input1_ref \<Rightarrow>
     (case resolve ctx input1_ref of
        Inl e \<Rightarrow> failed e
      | Inr input1 \<Rightarrow>
     (case node_properties node ''input2'' of
        None \<Rightarrow> failed (KeyError ''input2'')
      | Some input2_ref \<Rightarrow>
     (case resolve ctx input2_ref of
        Inl e \<Rightarrow> failed e
      | Inr input2 \<Rightarrow>
     (case node_properties node ''operator'' of
        None \<Rightarrow> failed (KeyError ''operator'')
      | Some opv \<Rightarrow>
     (case Operation_of opv of
        Inl e \<Rightarrow> failed e
      | Inr operation \<Rightarrow>
     (case ops operation input1 input2 of
        Inl e \<Rightarrow> failed e
      | Inr res \<Rightarrow>
          \<lparr>success = True, result_value = PyBool res,
           details = Details [(''input1'', input1), (''input2'', input2),
                          (''operation'', PyStr (Operation_value operation)),
                          (''result'', PyBool res)]\<rparr>)))))))"

text \<open>Iterating over a value: the items of a list, the characters of a string, the keys of a mapping.\<close>

fun iterate :: "pyval \<Rightarrow> error + pyval list" where
  "iterate (PyList xs) = Inr xs"
| "iterate (PyStr s) = Inr (map (\<lambda>c. PyStr [c]) s)"
| "iterate (PyDict kvs) = Inr (map (\<lambda>kv. PyStr (fst kv)) kvs)"
| "iterate v = Inl TypeError"

text \<open>\<open>[self.execution_context.get(input_id) for input_id in ...]\<close>: the first exception ends it.\<close>

fun get_inputs :: "(string \<rightharpoonup> pyval) \<Rightarrow> pyval list \<Rightarrow> error + pyval list" where
  "get_inputs ctx [] = Inr []"
| "get_inputs ctx (input_id # ids) =
     (case ctx_get ctx input_id of
        Inl e \<Rightarrow> Inl e
      | Inr v \<Rightarrow> (case get_inputs ctx ids of Inl e \<Rightarrow> Inl e | Inr vs \<Rightarrow> Inr (v # vs)))"

fun NodeType_value :: "NodeType \<Rightarrow> string" where
  "NodeType_value GET_DATA = ''get_data''"
| "NodeType_value COMPARE = ''compare''"
| "NodeType_value AND = ''and''"
| "NodeType_value OR = ''or''"
| "NodeType_value PUBLISH = ''publish''"
| "NodeType_value END = ''end''"

definition execute_logical_node :: "(string \<rightharpoonup> pyval) \<Rightarrow> Node \<Rightarrow> NodeResult" where
  "execute_logical_node ctx node =
     (case node_properties node ''inputs'' of
        None \<Rightarrow> failed (KeyError ''inputs'')
      | Some inputs \<Rightarrow>
     (case iterate inputs of
        Inl e \<Rightarrow> failed e
      | Inr ids \<Rightarrow>
     (case get_inputs ctx ids of
        Inl e \<Rightarrow> failed e
      | Inr input_values \<Rightarrow>
          let res = (if node_type node = AND then list_all truthy input_values
                     else list_ex truthy input_values)
          in \<lparr>success = True, result_value = PyBool res,
              details = Details [(''inputs'', PyList input_values),
                                 (''operation'', PyStr (NodeType_value (node_type node))),
                                 (''result'', PyBool res)]\<rparr>)))"

text \<open>
  \<open>execute_publish_node\<close>: the result and the action request handed over, if the
  publisher took it.
\<close>

definition execute_publish_node :: "env \<Rightarrow> Node \<Rightarrow> NodeResult \<times> (pyval \<times> pyval) list" where
  "execute_publish_node e node =
     (let action = prop_get node ''action'';
          action_data = (case node_properties node ''action_data'' of
                           None \<Rightarrow> PyDict [] | Some d \<Rightarrow> d)
      in if dispatch e action action_data
         then (\<lparr>success = True, result_value = PyStr ''published'',
                details = Details [(''action'', action), (''action_data'', action_data)]\<rparr>,
               [(action, action_data)])
         else (failed Publish_failed, []))"

text \<open>
  \<open>execute_node\<close>: the executor of the node's type, then the value of the result goes
  into the context under the node's id.
\<close>

definition execute_node :: "env \<Rightarrow> run \<Rightarrow> Node \<Rightarrow> NodeResult \<times> run" where
  "execute_node e st node =
     (let (result, sent) =
            (case node_type node of
               GET_DATA \<Rightarrow> (execute_get_data_node e node, [])
             | COMPARE \<Rightarrow> (execute_compare_node (execution_context st) node, [])
             | AND \<Rightarrow> (execute_logical_node (execution_context st) node, [])
             | OR \<Rightarrow> (execute_logical_node (execution_context st) node, [])
             | PUBLISH \<Rightarrow> execute_publish_node e node
             | END \<Rightarrow> (\<lparr>success = True, result_value = PyNone, details = Details []\<rparr>, []))
      in (result,
          st\<lparr>execution_context := (execution_context st)(node_id node \<mapsto> result_value result),
             published := published st @ sent\<rparr>))"

subsection \<open>The graph walk\<close>

text \<open>
  The successor list the walk consults after a node that succeeded: \<open>next_true\<close> or
  \<open>next_false\<close> of a COMPARE node, by the truth of its value, and \<open>next\<close> of any other.
\<close>

definition next_nodes :: "Node \<Rightarrow> pyval \<Rightarrow> string list" where
  "next_nodes current v =
     (if node_type current = COMPARE
      then (if truthy v then node_next_true current else node_next_false current)
      else node_next current)"

text \<open>The entry of the trace for a node and its result.\<close>

definition entry :: "Node \<Rightarrow> NodeResult \<Rightarrow> outcome" where
  "entry current result =
     \<lparr>o_node_id = node_id current, o_type = NodeType_value (node_type current),
      o_result = result_value result, o_details = details result\<rparr>"

text \<open>
  One pass through the body of the \<open>while\<close> loop of \<open>execute_rule\<close>: the loop ends
  (\<open>Stop\<close>, with the exception if one was raised) or goes on with another node.
\<close>

datatype step_result = Stop "error option" run | Continue run Node

definition step :: "env \<Rightarrow> (string \<rightharpoonup> Node) \<Rightarrow> run \<Rightarrow> Node \<Rightarrow> step_result" where
  "step e nodes st current =
     (let (result, st1) = execute_node e st current;
          st2 = st1\<lparr>results := results st1 @ [entry current result]\<rparr>
      in if \<not> success result then Stop None st2
         else (case next_nodes current (result_value result) of
                 [] \<Rightarrow> Stop None st2
               | n # others \<Rightarrow>
                   (case nodes n of
                      None \<Rightarrow> Stop (Some (KeyError n)) st2
                    | Some nd \<Rightarrow> Continue st2 nd)))"

text \<open>
  The loop. It has no bound and keeps no record of the nodes it has been at, so it need
  not end: \<open>None\<close> is a walk that never returns.
\<close>

partial_function (option) walk ::
  "env \<Rightarrow> (string \<rightharpoonup> Node) \<Rightarrow> run \<Rightarrow> Node \<Rightarrow> (error option \<times> run) option" where
  "walk e nodes st current =
     (if node_type current = END then Some (None, st)
      else (case step e nodes st current of
              Stop err st' \<Rightarrow> Some (err, st')
            | Continue st' nd \<Rightarrow> walk e nodes st' nd))"

declare walk.simps [code]

text \<open>
  The dictionary comprehension that loads the nodes: the documents in order, a later
  one replacing an earlier one of the same id, the first exception ending it.
\<close>

fun load_nodes :: "(string \<rightharpoonup> Node) \<Rightarrow> node_doc list \<Rightarrow> error + (string \<rightharpoonup> Node)" where
  "load_nodes acc [] = Inr acc"
| "load_nodes acc (d # ds) =
     (case from_dict d of
        Inl e \<Rightarrow> Inl e
      | Inr n \<Rightarrow> load_nodes (acc(node_id n \<mapsto> n)) ds)"

record rule_result =
  rule_id :: "string option"
  rule_name :: "string option"
  triggered :: bool
  error_field :: "error option"
  evaluation_time :: int
  node_results :: "outcome list option"

definition error_result :: "rule_doc \<Rightarrow> int \<Rightarrow> error \<Rightarrow> rule_result" where
  "error_result rule now err =
     \<lparr>rule_id = r_id rule, rule_name = r_name rule, triggered = False,
      error_field = Some err, evaluation_time = now, node_results = None\<rparr>"

text \<open>\<open>any(r['result'] == "published" for r in results if r['type'] == 'publish')\<close>\<close>

definition any_published :: "outcome list \<Rightarrow> bool" where
  "any_published rs =
     list_ex (\<lambda>r. py_eq (o_result r) (PyStr ''published''))
       (filter (\<lambda>r. o_type r = ''publish'') rs)"

text \<open>
  Where the walk starts: the context is reset, the nodes are loaded, the start node is
  looked up. An exception here is raised before any node has run.
\<close>

definition start :: "rule_doc \<Rightarrow> error + (string \<rightharpoonup> Node) \<times> Node" where
  "start rule =
     (case r_nodes rule of
        None \<Rightarrow> Inl (KeyError ''nodes'')
      | Some ds \<Rightarrow>
     (case load_nodes Map.empty ds of
        Inl e \<Rightarrow> Inl e
      | Inr nodes \<Rightarrow>
     (case r_start_node rule of
        None \<Rightarrow> Inl (KeyError ''start_node'')
      | Some s \<Rightarrow>
     (case nodes s of
        None \<Rightarrow> Inl (KeyError s)
      | Some n \<Rightarrow> Inr (nodes, n)))))"

definition fresh :: run where
  "fresh = \<lparr>execution_context = Map.empty, results = [], published = []\<rparr>"

text \<open>
  The two \<open>return\<close> statements of \<open>execute_rule\<close>: the result for a walk that ended,
  with \<open>now\<close> the reading of the clock. An exception gives the error result, without
  the trace.
\<close>

definition finish :: "rule_doc \<Rightarrow> int \<Rightarrow> error option \<times> run \<Rightarrow> rule_result \<times> run" where
  "finish rule now w =
     (case w of
        (Some err, st) \<Rightarrow> (error_result rule now err, st)
      | (None, st) \<Rightarrow>
          (\<lparr>rule_id = r_id rule, rule_name = r_name rule,
            triggered = any_published (results st),
            error_field = None, evaluation_time = now,
            node_results = Some (results st)\<rparr>, st))"

text \<open>
  \<open>execute_rule\<close>. It gives the result and what the run left behind (context, trace,
  action requests sent). Whatever context the engine held before is dropped at the
  start.
\<close>

definition execute_rule ::
  "env \<Rightarrow> int \<Rightarrow> (string \<rightharpoonup> pyval) \<Rightarrow> rule_doc \<Rightarrow> (rule_result \<times> run) option" where
  "execute_rule e now ctx rule =
     (case start rule of
        Inl err \<Rightarrow> Some (error_result rule now err, fresh)
      | Inr (nodes, n) \<Rightarrow> map_option (finish rule now) (walk e nodes fresh n))"

section \<open>The scheduler\<close>

text \<open>
  Instants are datetimes, held as microseconds; \<open>clock k\<close> is what the \<open>k\<close>-th call
  of \<open>datetime.now()\<close> returns, a naive datetime. The difference of two naive datetimes
  is a whole number of microseconds. Its \<open>total_seconds()\<close> is that number divided by
  \<open>10^6\<close> as a float: the quotient rounded to 53 significant bits, ties to even. The
  model holds this float exactly, as a mantissa \<open>m\<close> and a number of binary places
  \<open>k\<close>, standing for \<open>m / 2^k\<close>.
\<close>

text \<open>The binary places needed for 53 significant bits of \<open>a / 10^6\<close>, from \<open>k\<close> upwards.\<close>

function scale :: "int \<Rightarrow> nat \<Rightarrow> nat" where
  "scale a k = (if 0 < a \<and> a * 2 ^ k < 2 ^ 52 * 1000000 then scale a (Suc k) else k)"
  by pat_completeness auto
termination
proof (relation "measure (\<lambda>(a, k). nat (2 ^ 52 * 1000000 - a * 2 ^ k))", goal_cases)
  case 1
  show ?case by simp
next
  case (2 a k)
  define x where "x = a * 2 ^ k"
  from 2 have "0 < x" and "x < 2 ^ 52 * 1000000"
    by (simp_all add: x_def)
  moreover have "a * 2 ^ Suc k = 2 * x"
    by (simp add: x_def)
  ultimately show ?case
    unfolding in_measure prod.case x_def [symmetric] by linarith
qed

declare scale.simps [simp del]

text \<open>\<open>n / d\<close> rounded to the nearest integer, a tie to the even one.\<close>

definition round_half_even :: "int \<Rightarrow> int \<Rightarrow> int" where
  "round_half_even n d =
     (let q = n div d; r = n mod d
      in if 2 * r < d then q
         else if d < 2 * r then q + 1
         else if even q then q else q + 1)"

definition total_seconds :: "int \<Rightarrow> int \<times> nat" where
  "total_seconds us =
     (let a = \<bar>us\<bar>; k = scale a 0; m = round_half_even (a * 2 ^ k) 1000000
      in (if us < 0 then - m else m, k))"

text \<open>\<open>x >= i\<close> for a float \<open>x\<close> and an integer \<open>i\<close>: Python compares the two exactly.\<close>

definition float_ge :: "int \<times> nat \<Rightarrow> int \<Rightarrow> bool" where
  "float_ge x i = (case x of (m, k) \<Rightarrow> i * 2 ^ k \<le> m)"

text \<open>
  The body of the loop of \<open>get_rules\<close> for one document of the \<open>rules\<close> collection: the
  rule to run if it is selected, the data of the document as an update leaves it, and
  the number of clock readings taken. A \<open>last_run\<close> that is missing or does not parse
  raises before the clock is read; one with a UTC offset parses, and raises when it is
  subtracted from the naive \<open>datetime.now()\<close>; either way the exception is logged and
  the document passed over. A disabled rule never reads the clock for the test; every
  rule that is not selected reads it once for the log line. A selected rule is entered
  in the list under the id of its document and its \<open>last_run\<close> is updated to a new
  reading of the clock. Reads and updates of the store are taken to succeed.
\<close>

definition visit ::
  "(nat \<Rightarrow> int) \<Rightarrow> nat \<Rightarrow> string \<Rightarrow> rule_doc \<Rightarrow> rule_doc option \<times> rule_doc \<times> nat" where
  "visit clock k doc_id rule_data =
     (case r_last_run rule_data of
        NoStamp \<Rightarrow> (None, rule_data, 0)
      | BadStamp \<Rightarrow> (None, rule_data, 0)
      | AwareStamp last_run \<Rightarrow> (None, rule_data, 1)
      | Stamp last_run \<Rightarrow>
          (let interval = (case r_interval rule_data of None \<Rightarrow> 3600 | Some i \<Rightarrow> i);
               enabled = (case r_enabled rule_data of None \<Rightarrow> True | Some b \<Rightarrow> b)
           in if enabled \<and> float_ge (total_seconds (clock k - last_run)) interval
              then (Some (rule_data\<lparr>r_id := Some doc_id\<rparr>),
                    rule_data\<lparr>r_last_run := Stamp (clock (Suc k))\<rparr>, 2)
              else (None, rule_data, if enabled then 2 else 1)))"

text \<open>
  \<open>get_rules\<close>, over the documents of the collection (id and data) in order, from
  the \<open>k\<close>-th reading of the clock on. It gives the rules to run, the collection as the
  updates leave it, and the number of the next reading.
\<close>

fun get_rules ::
  "(nat \<Rightarrow> int) \<Rightarrow> nat \<Rightarrow> (string \<times> rule_doc) list \<Rightarrow>
     rule_doc list \<times> (string \<times> rule_doc) list \<times> nat" where
  "get_rules clock k [] = ([], [], k)"
| "get_rules clock k ((doc_id, rule_data) # docs) =
     (let (selected, data', reads) = visit clock k doc_id rule_data;
          (rules, docs', k') = get_rules clock (k + reads) docs
      in ((case selected of None \<Rightarrow> rules | Some rule \<Rightarrow> rule # rules),
          (doc_id, data') # docs', k'))"

text \<open>
  The loop of \<open>evaluate_all_rules\<close>: each rule is run in turn, on the context the engine
  holds from the run before. It gives the results, the action requests sent, the
  context left, and the clock readings taken; \<open>None\<close> when a run never returns.
\<close>

fun run_rules ::
  "env \<Rightarrow> (nat \<Rightarrow> int) \<Rightarrow> nat \<Rightarrow> (string \<rightharpoonup> pyval) \<Rightarrow> rule_doc list \<Rightarrow>
     (rule_result list \<times> (pyval \<times> pyval) list \<times> (string \<rightharpoonup> pyval) \<times> nat) option" where
  "run_rules e clock k ctx [] = Some ([], [], ctx, k)"
| "run_rules e clock k ctx (rule # rules) =
     (case execute_rule e (clock k) ctx rule of
        None \<Rightarrow> None
      | Some (result, st) \<Rightarrow>
          (case run_rules e clock (Suc k) (execution_context st) rules of
             None \<Rightarrow> None
           | Some (rs, sent, ctx', k') \<Rightarrow>
               Some (result # rs, published st @ sent, ctx', k')))"

text \<open>
  \<open>evaluate_all_rules\<close>: the collection after the cycle is the one \<open>get_rules\<close> left,
  whatever the runs do.
\<close>

definition evaluate_all_rules ::
  "env \<Rightarrow> (nat \<Rightarrow> int) \<Rightarrow> nat \<Rightarrow> (string \<rightharpoonup> pyval) \<Rightarrow> (string \<times> rule_doc) list \<Rightarrow>
     (string \<times> rule_doc) list \<times>
     (rule_result list \<times> (pyval \<times> pyval) list \<times> (string \<rightharpoonup> pyval) \<times> nat) option" where
  "evaluate_all_rules e clock k ctx db =
     (let (rules, db', k') = get_rules clock k db
      in (db', run_rules e clock k' ctx rules))"

record response =
  status :: string
  timestamp :: int
  rule_results :: "rule_result list"

text \<open>
  \<open>evaluate_rules\<close>, the entry point: a new engine, one cycle, the response. No
  exception of a rule reaches it, so the status is \<open>success\<close> whenever the cycle returns.
\<close>

definition evaluate_rules ::
  "env \<Rightarrow> (nat \<Rightarrow> int) \<Rightarrow> nat \<Rightarrow> (string \<times> rule_doc) list \<Rightarrow>
     (string \<times> rule_doc) list \<times> (response \<times> (pyval \<times> pyval) list) option" where
  "evaluate_rules e clock k db =
     (let (db', r) = evaluate_all_rules e clock k Map.empty db
      in (db', (case r of
                  None \<Rightarrow> None
                | Some (rs, sent, ctx', k') \<Rightarrow>
                    Some (\<lparr>status = ''success'', timestamp = clock k', rule_results = rs\<rparr>,
                          sent))))"

section \<open>The older condition evaluator\<close>

text \<open>
  The repository keeps the engine that came before the node graph: a rule is a tree of
  conditions, each comparing the latest value of a topic with a target. Its evaluator
  converts between text and the other operand's type, which the node engine never does.
\<close>

subsection \<open>\<open>int(s)\<close> and \<open>str(v)\<close>\<close>

definition is_space :: "char \<Rightarrow> bool" where
  "is_space c = (let n = (of_char c :: nat) in (9 \<le> n \<and> n \<le> 13) \<or> (28 \<le> n \<and> n \<le> 32))"

definition digit_value :: "char \<Rightarrow> nat option" where
  "digit_value c =
     (let n = (of_char c :: nat) in if 48 \<le> n \<and> n \<le> 57 then Some (n - 48) else None)"

text \<open>The digits after the first one; an underscore may stand between two digits.\<close>

fun more_digits :: "nat \<Rightarrow> string \<Rightarrow> nat option" where
  "more_digits acc [] = Some acc"
| "more_digits acc [c] =
     (case digit_value c of None \<Rightarrow> None | Some v \<Rightarrow> Some (acc * 10 + v))"
| "more_digits acc (c # d # cs) =
     (if c = CHR ''_''
      then (case digit_value d of
              None \<Rightarrow> None
            | Some v \<Rightarrow> more_digits (acc * 10 + v) cs)
      else (case digit_value c of
              None \<Rightarrow> None
            | Some v \<Rightarrow> more_digits (acc * 10 + v) (d # cs)))"

definition digits :: "string \<Rightarrow> nat option" where
  "digits s =
     (case s of
        [] \<Rightarrow> None
      | c # cs \<Rightarrow> (case digit_value c of None \<Rightarrow> None | Some v \<Rightarrow> more_digits v cs))"

definition strip :: "string \<Rightarrow> string" where
  "strip s = rev (dropWhile is_space (rev (dropWhile is_space s)))"

text \<open>
  \<open>int(s)\<close>: surrounding white space, an optional sign, decimal digits; anything else
  raises \<open>ValueError\<close>, and so does a text of more than 4300 digits (the limit of
  Python 3.11 and later on conversions between \<open>int\<close> and \<open>str\<close>).
\<close>

definition py_int :: "string \<Rightarrow> error + int" where
  "py_int s =
     (case strip s of
        [] \<Rightarrow> Inl ValueError
      | c # cs \<Rightarrow>
          (let body = (if c = CHR ''-'' \<or> c = CHR ''+'' then cs else c # cs)
           in if 4300 < length (filter (\<lambda>d. digit_value d \<noteq> None) body) then Inl ValueError
              else (case digits body of
                      None \<Rightarrow> Inl ValueError
                    | Some n \<Rightarrow> Inr (if c = CHR ''-'' then - int n else int n))))"

fun nat_str :: "nat \<Rightarrow> string" where
  "nat_str n =
     (if n < 10 then [''0123456789'' ! n]
      else nat_str (n div 10) @ [''0123456789'' ! (n mod 10)])"

text \<open>\<open>str(i)\<close> of an integer: it raises \<open>ValueError\<close> beyond 4300 digits.\<close>

definition int_str :: "int \<Rightarrow> error + string" where
  "int_str i =
     (let ds = nat_str (nat \<bar>i\<bar>)
      in if 4300 < length ds then Inl ValueError
         else Inr (if i < 0 then CHR ''-'' # ds else ds))"

text \<open>\<open>repr\<close> of a string: quoted, with the quote, the backslash and control characters escaped.\<close>

definition hex2 :: "nat \<Rightarrow> string" where
  "hex2 n = [''0123456789abcdef'' ! (n div 16), ''0123456789abcdef'' ! (n mod 16)]"

definition escape :: "char \<Rightarrow> char \<Rightarrow> string" where
  "escape q c =
     (let n = (of_char c :: nat) in
      if c = q \<or> c = CHR 0x5C then [CHR 0x5C, c]
      else if n = 9 then [CHR 0x5C, CHR ''t'']
      else if n = 10 then [CHR 0x5C, CHR ''n'']
      else if n = 13 then [CHR 0x5C, CHR ''r'']
      else if n < 32 \<or> n = 127 then [CHR 0x5C, CHR ''x''] @ hex2 n
      else [c])"

definition str_repr :: "string \<Rightarrow> string" where
  "str_repr s =
     (let q = (if CHR 0x27 \<in> set s \<and> CHR 0x22 \<notin> set s then CHR 0x22 else CHR 0x27)
      in [q] @ concat (map (escape q) s) @ [q])"

fun join :: "string \<Rightarrow> string list \<Rightarrow> string" where
  "join sep [] = []"
| "join sep [x] = x"
| "join sep (x # y # xs) = x @ sep @ join sep (y # xs)"

fun py_repr :: "pyval \<Rightarrow> error + string"
  and reprs :: "pyval list \<Rightarrow> error + string list"
  and item_reprs :: "(string \<times> pyval) list \<Rightarrow> error + string list" where
  "py_repr PyNone = Inr ''None''"
| "py_repr (PyBool b) = Inr (if b then ''True'' else ''False'')"
| "py_repr (PyInt i) = int_str i"
| "py_repr (PyStr s) = Inr (str_repr s)"
| "py_repr (PyList xs) =
     (case reprs xs of Inl e \<Rightarrow> Inl e | Inr rs \<Rightarrow> Inr (''['' @ join '', '' rs @ '']''))"
| "py_repr (PyDict kvs) =
     (case item_reprs kvs of Inl e \<Rightarrow> Inl e | Inr rs \<Rightarrow> Inr (''{'' @ join '', '' rs @ ''}''))"
| "reprs [] = Inr []"
| "reprs (x # xs) =
     (case py_repr x of
        Inl e \<Rightarrow> Inl e
      | Inr r \<Rightarrow> (case reprs xs of Inl e \<Rightarrow> Inl e | Inr rs \<Rightarrow> Inr (r # rs)))"
| "item_reprs [] = Inr []"
| "item_reprs ((k, v) # kvs) =
     (case py_repr v of
        Inl e \<Rightarrow> Inl e
      | Inr r \<Rightarrow>
          (case item_reprs kvs of
             Inl e \<Rightarrow> Inl e
           | Inr rs \<Rightarrow> Inr ((str_repr k @ '': '' @ r) # rs)))"

definition py_str :: "pyval \<Rightarrow> error + string" where
  "py_str v = (case v of PyStr s \<Rightarrow> Inr s | _ \<Rightarrow> py_repr v)"

text \<open>\<open>type(target)(s)\<close> for a string \<open>s\<close>: the constructor of the target's type applied to it.\<close>

fun construct :: "pyval \<Rightarrow> string \<Rightarrow> error + pyval" where
  "construct PyNone s = Inl TypeError"
| "construct (PyBool b) s = Inr (PyBool (s \<noteq> []))"
| "construct (PyInt i) s = map_sum id PyInt (py_int s)"
| "construct (PyStr t) s = Inr (PyStr s)"
| "construct (PyList xs) s = Inr (PyList (map (\<lambda>c. PyStr [c]) s))"
| "construct (PyDict kvs) s = (if s = [] then Inr (PyDict []) else Inl ValueError)"

subsection \<open>Conditions\<close>

text \<open>The older \<open>Operation\<close> has \<open>AND\<close> and \<open>OR\<close> beside the eight operators.\<close>

datatype Operation_copy = AND_copy | OR_copy | Operator Operation

fun Operation_copy_value :: "Operation_copy \<Rightarrow> string" where
  "Operation_copy_value AND_copy = ''AND''"
| "Operation_copy_value OR_copy = ''OR''"
| "Operation_copy_value (Operator opn) = Operation_value opn"

record Condition =
  c_topic :: string
  c_operation :: Operation_copy
  c_value :: pyval

text \<open>The \<open>details\<close> of an evaluated condition; a key that is not set is \<open>None\<close>.\<close>

record condition_details =
  cd_topic :: string
  cd_operation :: string
  cd_target_value :: "pyval option"
  cd_current_value :: "pyval option"
  cd_error :: "error option"

record condition_result =
  c_result :: bool
  c_details :: condition_details

text \<open>The older \<open>get_latest_value\<close> also answers \<open>None\<close> for a value that is false.\<close>

definition get_latest_value_copy :: "env \<Rightarrow> string \<Rightarrow> pyval" where
  "get_latest_value_copy e topic =
     (case store e (''mqtt_values/'' @ safe_topic_id topic @ ''/messages'') of
        None \<Rightarrow> PyNone
      | Some last_message \<Rightarrow> if \<not> truthy last_message then PyNone else last_message)"

definition is_str :: "pyval \<Rightarrow> bool" where
  "is_str v = (case v of PyStr s \<Rightarrow> True | _ \<Rightarrow> False)"

text \<open>
  The conversion before the comparison. A textual latest value against another target
  goes through the constructor of the target's type; any other latest value against a
  textual target becomes its \<open>str\<close>. It is always the latest value that changes.
\<close>

definition convert :: "pyval \<Rightarrow> pyval \<Rightarrow> error + pyval" where
  "convert latest_value target =
     (case latest_value of
        PyStr s \<Rightarrow> if \<not> is_str target then construct target s else Inr latest_value
      | _ \<Rightarrow> if is_str target then map_sum id PyStr (py_str latest_value)
             else Inr latest_value)"

definition evaluate_condition :: "env \<Rightarrow> Condition \<Rightarrow> condition_result" where
  "evaluate_condition e condition =
     (let latest_value = get_latest_value_copy e (c_topic condition);
          d = \<lparr>cd_topic = c_topic condition,
               cd_operation = Operation_copy_value (c_operation condition),
               cd_target_value = None, cd_current_value = None, cd_error = None\<rparr>
      in if latest_value = PyNone
         then \<lparr>c_result = False,
               c_details = d\<lparr>cd_target_value := Some (c_value condition),
                              cd_current_value := Some PyNone,
                              cd_error := Some No_value_available\<rparr>\<rparr>
         else (case c_operation condition of
                 Operator opn \<Rightarrow>
                   (case convert latest_value (c_value condition) of
                      Inl err \<Rightarrow>
                        \<lparr>c_result = False,
                         c_details = d\<lparr>cd_target_value := Some (c_value condition),
                                        cd_current_value := Some latest_value,
                                        cd_error := Some Type_conversion_failed\<rparr>\<rparr>
                    | Inr v \<Rightarrow>
                        (case ops opn v (c_value condition) of
                           Inl err \<Rightarrow> \<lparr>c_result = False, c_details = d\<lparr>cd_error := Some err\<rparr>\<rparr>
                         | Inr res \<Rightarrow>
                             \<lparr>c_result = res,
                              c_details = d\<lparr>cd_target_value := Some (c_value condition),
                                             cd_current_value := Some v\<rparr>\<rparr>))
               | _ \<Rightarrow> \<lparr>c_result = False, c_details = d\<lparr>cd_error := Some Unknown_operation\<rparr>\<rparr>))"

section \<open>Notions for the properties\<close>

text \<open>The state after \<open>current\<close> has been executed and entered into the trace.\<close>

definition executed :: "env \<Rightarrow> run \<Rightarrow> Node \<Rightarrow> run" where
  "executed e st current =
     (snd (execute_node e st current))
       \<lparr>results := results st @ [entry current (fst (execute_node e st current))]\<rparr>"

text \<open>
  The trace does not keep \<open>success\<close>, but it shows: a node that ran succeeded exactly
  when its value is not \<open>None\<close> (lemma \<open>execute_node_success_iff\<close>).
\<close>

definition succeeded :: "outcome \<Rightarrow> bool" where
  "succeeded a = (o_result a \<noteq> PyNone)"

text \<open>
  The successor list of a node in the words of the specification, written without the
  engine's own choice: for a COMPARE node \<open>next_true\<close> when the boolean result is true,
  else \<open>next_false\<close>; for every other type \<open>next\<close>.
\<close>

definition successors :: "Node \<Rightarrow> pyval \<Rightarrow> string list" where
  "successors node v =
     (if node_type node = COMPARE
      then (if v = PyBool True then node_next_true node else node_next_false node)
      else node_next node)"

text \<open>The successor list of the node of a trace entry, given the value in the entry.\<close>

definition chosen :: "(string \<rightharpoonup> Node) \<Rightarrow> outcome \<Rightarrow> string list" where
  "chosen nodes a =
     (case nodes (o_node_id a) of None \<Rightarrow> [] | Some na \<Rightarrow> successors na (o_result a))"

definition points_to :: "(string \<rightharpoonup> Node) \<Rightarrow> outcome \<Rightarrow> string \<Rightarrow> bool" where
  "points_to nodes a i = (case chosen nodes a of [] \<Rightarrow> False | n # others \<Rightarrow> n = i)"

text \<open>
  A trace is a chain when each entry but the last has a successor list that is not
  empty, and the next entry is that of the node named first in it.
\<close>

fun chain :: "(string \<rightharpoonup> Node) \<Rightarrow> outcome list \<Rightarrow> bool" where
  "chain nodes [] = True"
| "chain nodes [a] = True"
| "chain nodes (a # b # tr) = (points_to nodes a (o_node_id b) \<and> chain nodes (b # tr))"

text \<open>
  Where a walk may end without an exception: at a node that failed, at one whose
  successor list is empty, or in front of an END node.
\<close>

definition ends :: "(string \<rightharpoonup> Node) \<Rightarrow> outcome \<Rightarrow> bool" where
  "ends nodes a =
     (\<not> succeeded a \<or>
      (case chosen nodes a of
         [] \<Rightarrow> True
       | n # others \<Rightarrow> (case nodes n of None \<Rightarrow> False | Some nd \<Rightarrow> node_type nd = END)))"

text \<open>Where it ends with the exception \<open>x\<close>: the first successor is no node of the rule.\<close>

definition dangling :: "(string \<rightharpoonup> Node) \<Rightarrow> outcome \<Rightarrow> error \<Rightarrow> bool" where
  "dangling nodes a x =
     (succeeded a \<and>
      (case chosen nodes a of [] \<Rightarrow> False | n # others \<Rightarrow> nodes n = None \<and> x = KeyError n))"

text \<open>Every node of the dictionary stands under its own id.\<close>

definition well_keyed :: "(string \<rightharpoonup> Node) \<Rightarrow> bool" where
  "well_keyed nodes = (\<forall>k n. nodes k = Some n \<longrightarrow> node_id n = k)"

text \<open>
  What holds whenever the walk is at a node, and what holds of what it returns: the
  trace is a chain of nodes that succeeded, and the end is one of those above.
\<close>

definition on_track :: "(string \<rightharpoonup> Node) \<Rightarrow> run \<Rightarrow> Node \<Rightarrow> bool" where
  "on_track nodes st current =
     (well_keyed nodes \<and> nodes (node_id current) = Some current \<and>
      chain nodes (results st) \<and>
      (results st = [] \<or> points_to nodes (last (results st)) (node_id current)) \<and>
      list_all succeeded (results st))"

definition well_ended :: "(string \<rightharpoonup> Node) \<Rightarrow> error option \<times> run \<Rightarrow> bool" where
  "well_ended nodes y =
     (chain nodes (results (snd y)) \<and> list_all succeeded (butlast (results (snd y))) \<and>
      (case fst y of
         None \<Rightarrow> results (snd y) = [] \<or> ends nodes (last (results (snd y)))
       | Some x \<Rightarrow> results (snd y) \<noteq> [] \<and> dangling nodes (last (results (snd y))) x))"

text \<open>The nodes of a rule as \<open>execute_rule\<close> loads them; none when loading fails.\<close>

definition graph :: "rule_doc \<Rightarrow> (string \<rightharpoonup> Node)" where
  "graph rule = (case start rule of Inl err \<Rightarrow> Map.empty | Inr (nodes, n) \<Rightarrow> nodes)"

text \<open>
  What a run shows: the verdict, the error, the node id and value of every trace entry,
  and the action requests sent.
\<close>

definition verdict ::
  "(rule_result \<times> run) option \<Rightarrow>
     (bool \<times> error option \<times> (string \<times> pyval) list \<times> (pyval \<times> pyval) list) option" where
  "verdict r =
     map_option (\<lambda>(res, st). (triggered res, error_field res,
                   map (\<lambda>a. (o_node_id a, o_result a)) (results st), published st)) r"

section \<open>Example rules\<close>

text \<open>The rule that \<open>insert_rules.py\<close> stores, and a store in which sensor 1 is warmer.\<close>

definition temperature_rule :: rule_doc where
  "temperature_rule =
     \<lparr>r_id = Some ''temperature_difference_alert'',
      r_name = Some ''Temperature Difference Alert'',
      r_description = Some ''Alert when temperature sensor 1 is higher than sensor 2'',
      r_enabled = Some True, r_interval = None, r_last_run = NoStamp,
      r_start_node = Some ''get_temp1'',
      r_nodes = Some
        [\<lparr>d_id = Some ''get_temp1'', d_type = Some ''get_data'',
          d_properties = Some [''topic'' \<mapsto> PyStr ''sensors_12458_temperature''],
          d_next = Some [''get_temp2''], d_next_true = None, d_next_false = None\<rparr>,
         \<lparr>d_id = Some ''get_temp2'', d_type = Some ''get_data'',
          d_properties = Some [''topic'' \<mapsto> PyStr ''sensors_12459_temperature''],
          d_next = Some [''compare_temps''], d_next_true = None, d_next_false = None\<rparr>,
         \<lparr>d_id = Some ''compare_temps'', d_type = Some ''compare'',
          d_properties = Some [''input1'' \<mapsto> PyStr ''get_temp1'',
                               ''input2'' \<mapsto> PyStr ''get_temp2'',
                               ''operator'' \<mapsto> PyStr ''>''],
          d_next = None, d_next_true = Some [''publish_alert''],
          d_next_false = Some [''end'']\<rparr>,
         \<lparr>d_id = Some ''publish_alert'', d_type = Some ''publish'',
          d_properties = Some [''rule_id'' \<mapsto> PyStr ''temperature_difference_alert'',
                               ''action'' \<mapsto> PyStr ''email'',
                               ''action_data'' \<mapsto>
                                 PyDict [(''body'', PyStr ''Temperature sensor 1 is higher than sensor 2''),
                                         (''to'', PyStr ''alerts@example.com'')]],
          d_next = Some [''end''], d_next_true = None, d_next_false = None\<rparr>,
         \<lparr>d_id = Some ''end'', d_type = Some ''end'', d_properties = None,
          d_next = None, d_next_true = None, d_next_false = None\<rparr>]\<rparr>"

definition warm_env :: env where
  "warm_env =
     \<lparr>store = [''mqtt_values/sensors_12458_temperature/messages'' \<mapsto> PyInt 35,
               ''mqtt_values/sensors_12459_temperature/messages'' \<mapsto> PyInt 20],
      dispatch = (\<lambda>action action_data. True)\<rparr>"

text \<open>A store with no telemetry and a publisher that accepts every request.\<close>

definition quiet_env :: env where
  "quiet_env = \<lparr>store = Map.empty, dispatch = (\<lambda>action action_data. True)\<rparr>"

text \<open>An AND node over the values of \<open>a\<close> and \<open>b\<close>, and a run in which they are true and false.\<close>

definition and_node :: Node where
  "and_node = \<lparr>node_id = ''both'', node_type = AND,
     node_properties = [''inputs'' \<mapsto> PyList [PyStr ''a'', PyStr ''b'']],
     node_next = [], node_next_true = [], node_next_false = []\<rparr>"

definition ab_run :: run where
  "ab_run = \<lparr>execution_context = [''a'' \<mapsto> PyBool True, ''b'' \<mapsto> PyBool False],
     results = [], published = []\<rparr>"

text \<open>A rule document with the given start node and nodes, and a node document.\<close>

definition rule_of :: "string \<Rightarrow> node_doc list \<Rightarrow> rule_doc" where
  "rule_of s ds =
     \<lparr>r_id = Some ''r'', r_name = Some ''rule'', r_description = None,
      r_enabled = Some True, r_interval = Some 60, r_last_run = Stamp 0,
      r_start_node = Some s, r_nodes = Some ds\<rparr>"

definition node_of ::
  "string \<Rightarrow> string \<Rightarrow> (string \<rightharpoonup> pyval) \<Rightarrow> string list \<Rightarrow> string list \<Rightarrow> string list \<Rightarrow>
     node_doc" where
  "node_of i t props nx nt nf =
     \<lparr>d_id = Some i, d_type = Some t, d_properties = Some props,
      d_next = Some nx, d_next_true = Some nt, d_next_false = Some nf\<rparr>"

text \<open>
  A PUBLISH node, then a COMPARE node that tests whether its own id contains itself and
  goes back to the PUBLISH node. At first the id stands for itself and the test is
  true; the second time the context holds \<open>True\<close> under that id, and \<open>True in True\<close>
  raises.
\<close>

definition revisit_rule :: rule_doc where
  "revisit_rule =
     rule_of ''p''
       [node_of ''p'' ''publish'' [''action'' \<mapsto> PyStr ''email''] [''c''] [] [],
        node_of ''c'' ''compare''
          [''input1'' \<mapsto> PyStr ''c'', ''input2'' \<mapsto> PyStr ''c'',
           ''operator'' \<mapsto> PyStr ''contains''] [] [''p''] []]"

text \<open>A PUBLISH node, then a GET_DATA node for a topic without telemetry, then the end.\<close>

definition publish_then_read :: rule_doc where
  "publish_then_read =
     rule_of ''p''
       [node_of ''p'' ''publish'' [''action'' \<mapsto> PyStr ''email''] [''g''] [] [],
        node_of ''g'' ''get_data'' [''topic'' \<mapsto> PyStr ''t''] [''end''] [] [],
        node_of ''end'' ''end'' Map.empty [] [] []]"

text \<open>The GET_DATA node of that rule, as loaded.\<close>

definition read_node :: Node where
  "read_node = \<lparr>node_id = ''g'', node_type = GET_DATA,
     node_properties = [''topic'' \<mapsto> PyStr ''t''],
     node_next = [''end''], node_next_true = [], node_next_false = []\<rparr>"

text \<open>A PUBLISH node whose successor is no node of the rule.\<close>

definition dangling_rule :: rule_doc where
  "dangling_rule =
     rule_of ''p'' [node_of ''p'' ''publish'' [''action'' \<mapsto> PyStr ''email''] [''ghost''] [] []]"

text \<open>
  A COMPARE node for \<open>3 > 5\<close> with two ids in each successor list, an AND node with no
  successor, and a PUBLISH node that the run never reaches; the first two as loaded.
\<close>

definition branch_rule :: rule_doc where
  "branch_rule =
     rule_of ''c''
       [node_of ''c'' ''compare''
          [''input1'' \<mapsto> PyInt 3, ''input2'' \<mapsto> PyInt 5, ''operator'' \<mapsto> PyStr ''>'']
          [''never''] [''high'', ''low''] [''low'', ''high''],
        node_of ''low'' ''and'' [''inputs'' \<mapsto> PyList []] [] [''high''] [''high''],
        node_of ''high'' ''publish'' [''action'' \<mapsto> PyStr ''email''] [''low''] [] []]"

definition fork_node :: Node where
  "fork_node = \<lparr>node_id = ''c'', node_type = COMPARE,
     node_properties =
       [''input1'' \<mapsto> PyInt 3, ''input2'' \<mapsto> PyInt 5, ''operator'' \<mapsto> PyStr ''>''],
     node_next = [''never''], node_next_true = [''high'', ''low''],
     node_next_false = [''low'', ''high'']\<rparr>"

definition rest_node :: Node where
  "rest_node = \<lparr>node_id = ''low'', node_type = AND,
     node_properties = [''inputs'' \<mapsto> PyList []],
     node_next = [], node_next_true = [''high''], node_next_false = [''high'']\<rparr>"

text \<open>Two AND nodes without inputs, each the successor of the other; as loaded.\<close>

definition two_cycle_rule :: rule_doc where
  "two_cycle_rule =
     rule_of ''a''
       [node_of ''a'' ''and'' [''inputs'' \<mapsto> PyList []] [''b''] [] [],
        node_of ''b'' ''and'' [''inputs'' \<mapsto> PyList []] [''a''] [] []]"

definition cycle_node :: "string \<Rightarrow> string \<Rightarrow> Node" where
  "cycle_node i n = \<lparr>node_id = i, node_type = AND,
     node_properties = [''inputs'' \<mapsto> PyList []],
     node_next = [n], node_next_true = [], node_next_false = []\<rparr>"

text \<open>
  The two nodes of \<open>revisit_rule\<close> as loaded, and the run after each has been executed
  once: the state in which the walk is at the PUBLISH node again.
\<close>

definition again_node :: Node where
  "again_node = \<lparr>node_id = ''p'', node_type = PUBLISH,
     node_properties = [''action'' \<mapsto> PyStr ''email''],
     node_next = [''c''], node_next_true = [], node_next_false = []\<rparr>"

definition test_node :: Node where
  "test_node = \<lparr>node_id = ''c'', node_type = COMPARE,
     node_properties =
       [''input1'' \<mapsto> PyStr ''c'', ''input2'' \<mapsto> PyStr ''c'',
        ''operator'' \<mapsto> PyStr ''contains''],
     node_next = [], node_next_true = [''p''], node_next_false = []\<rparr>"

definition again_run :: run where
  "again_run = executed quiet_env (executed quiet_env fresh again_node) test_node"

section \<open>Properties\<close>

subsection \<open>Nodes\<close>

lemma get_inputs_strs:
  "get_inputs ctx (map PyStr ids) =
     Inr (map (\<lambda>i. case ctx i of None \<Rightarrow> PyNone | Some v \<Rightarrow> v) ids)"
  by (induction ids) (simp_all add: ctx_get_def)

lemma truthy_lookup:
  "truthy (case ctx i of None \<Rightarrow> PyNone | Some v \<Rightarrow> v) =
     (case ctx i of None \<Rightarrow> False | Some v \<Rightarrow> truthy v)"
  by (simp split: option.split)

text \<open>
  C7. An AND node whose \<open>inputs\<close> are node ids succeeds with the conjunction of the
  truth values that the context holds under these ids, an OR node with their
  disjunction; an id that the context does not hold counts as false and fails nothing.
\<close>

theorem logical_node_all_any:
  assumes "node_type node = AND \<or> node_type node = OR"
    and "node_properties node ''inputs'' = Some (PyList (map PyStr ids))"
  shows "success (fst (execute_node e st node)) \<and>
         result_value (fst (execute_node e st node)) =
           PyBool (if node_type node = AND
                   then list_all (\<lambda>i. case execution_context st i of
                                         None \<Rightarrow> False | Some v \<Rightarrow> truthy v) ids
                   else list_ex (\<lambda>i. case execution_context st i of
                                        None \<Rightarrow> False | Some v \<Rightarrow> truthy v) ids)"
  using assms
  by (auto simp add: execute_node_def execute_logical_node_def get_inputs_strs
      list_all_iff list_ex_iff truthy_lookup Let_def)

text \<open>
  Inputs \<open>[true, false]\<close> give false under AND and true under OR; with the id \<open>c\<close>,
  which the context does not hold, in place of \<open>b\<close> they give the same and do not fail.
\<close>

theorem logical_node_all_any_witness:
  "success (fst (execute_node quiet_env ab_run and_node)) \<and>
   result_value (fst (execute_node quiet_env ab_run and_node)) = PyBool False \<and>
   success (fst (execute_node quiet_env ab_run (and_node\<lparr>node_type := OR\<rparr>))) \<and>
   result_value (fst (execute_node quiet_env ab_run (and_node\<lparr>node_type := OR\<rparr>))) =
     PyBool True \<and>
   success (fst (execute_node quiet_env
     (ab_run\<lparr>execution_context := [''a'' \<mapsto> PyBool True]\<rparr>) and_node)) \<and>
   result_value (fst (execute_node quiet_env
     (ab_run\<lparr>execution_context := [''a'' \<mapsto> PyBool True]\<rparr>) and_node)) = PyBool False"
  using logical_node_all_any [of and_node "[''a'', ''b'']" quiet_env ab_run]
    logical_node_all_any [of "and_node\<lparr>node_type := OR\<rparr>" "[''a'', ''b'']" quiet_env ab_run]
    logical_node_all_any [of and_node "[''a'', ''b'']" quiet_env
      "ab_run\<lparr>execution_context := [''a'' \<mapsto> PyBool True]\<rparr>"]
  by (simp add: and_node_def ab_run_def)

subsection \<open>The trace of a walk\<close>

lemma chain_snoc:
  "chain nodes tr \<Longrightarrow> tr = [] \<or> points_to nodes (last tr) (o_node_id a) \<Longrightarrow> chain nodes (tr @ [a])"
  by (induction nodes tr rule: chain.induct) auto

lemma execute_node_success_iff:
  "node_type node \<noteq> END \<Longrightarrow>
   success (fst (execute_node e st node)) = (result_value (fst (execute_node e st node)) \<noteq> PyNone)"
  by (cases "node_type node")
     (auto simp add: execute_node_def execute_get_data_node_def execute_compare_node_def
        execute_logical_node_def execute_publish_node_def failed_def Let_def
        split: option.splits sum.splits)

lemma execute_node_results:
  "results (snd (execute_node e st node)) = results st"
  by (simp add: execute_node_def split: prod.splits)

lemma step_eq:
  "step e nodes st current =
     (if \<not> success (fst (execute_node e st current)) then Stop None (executed e st current)
      else (case next_nodes current (result_value (fst (execute_node e st current))) of
              [] \<Rightarrow> Stop None (executed e st current)
            | n # others \<Rightarrow>
                (case nodes n of
                   None \<Rightarrow> Stop (Some (KeyError n)) (executed e st current)
                 | Some nd \<Rightarrow> Continue (executed e st current) nd)))"
proof -
  obtain result st1 where ex: "execute_node e st current = (result, st1)"
    by (cases "execute_node e st current")
  have "results st1 = results st"
    using execute_node_results [of e st current] ex by simp
  then show ?thesis
    by (simp add: step_def executed_def ex Let_def split: list.split option.split)
qed

lemma compare_value:
  "result_value (execute_compare_node ctx node) = PyNone \<or>
   (\<exists>b. result_value (execute_compare_node ctx node) = PyBool b)"
  by (simp add: execute_compare_node_def failed_def split: option.split sum.split)

text \<open>
  The list the engine takes is the one the specification names: a COMPARE node has a
  boolean or no value, so the truth of its value is its being \<open>True\<close>.
\<close>

lemma next_nodes_successors:
  "next_nodes node (result_value (fst (execute_node e st node))) =
     successors node (result_value (fst (execute_node e st node)))"
proof (cases "node_type node = COMPARE")
  case True
  then have "fst (execute_node e st node) = execute_compare_node (execution_context st) node"
    by (simp add: execute_node_def)
  with compare_value [of "execution_context st" node] True show ?thesis
    by (auto simp add: next_nodes_def successors_def)
next
  case False
  then show ?thesis by (simp add: next_nodes_def successors_def)
qed

lemma step_successors:
  "step e nodes st current =
     (if \<not> success (fst (execute_node e st current)) then Stop None (executed e st current)
      else (case successors current (result_value (fst (execute_node e st current))) of
              [] \<Rightarrow> Stop None (executed e st current)
            | n # others \<Rightarrow>
                (case nodes n of
                   None \<Rightarrow> Stop (Some (KeyError n)) (executed e st current)
                 | Some nd \<Rightarrow> Continue (executed e st current) nd)))"
  by (simp only: step_eq next_nodes_successors)

lemma results_executed:
  "results (executed e st current) = results st @ [entry current (fst (execute_node e st current))]"
  by (simp add: executed_def)

lemma chosen_entry:
  "nodes (node_id current) = Some current \<Longrightarrow>
   chosen nodes (entry current r) = successors current (result_value r)"
  by (simp add: chosen_def entry_def)

lemma succeeded_entry:
  "node_type current \<noteq> END \<Longrightarrow>
   succeeded (entry current (fst (execute_node e st current))) = success (fst (execute_node e st current))"
  by (simp add: succeeded_def entry_def execute_node_success_iff)

lemma list_all_butlast:
  "list_all P xs \<Longrightarrow> list_all P (butlast xs)"
  by (induction xs) auto

lemma step_cases:
  obtains
    (failed) "\<not> success (fst (execute_node e st current))"
      "step e nodes st current = Stop None (executed e st current)"
  | (last) "success (fst (execute_node e st current))"
      "successors current (result_value (fst (execute_node e st current))) = []"
      "step e nodes st current = Stop None (executed e st current)"
  | (lost) n others where "success (fst (execute_node e st current))"
      "successors current (result_value (fst (execute_node e st current))) = n # others"
      "nodes n = None"
      "step e nodes st current = Stop (Some (KeyError n)) (executed e st current)"
  | (on) n others nd where "success (fst (execute_node e st current))"
      "successors current (result_value (fst (execute_node e st current))) = n # others"
      "nodes n = Some nd"
      "step e nodes st current = Continue (executed e st current) nd"
proof (cases "success (fst (execute_node e st current))")
  case False
  then show ?thesis by (intro failed) (simp_all add: step_successors)
next
  case True
  show ?thesis
  proof (cases "successors current (result_value (fst (execute_node e st current)))")
    case Nil
    with True show ?thesis by (intro last) (simp_all add: step_successors)
  next
    case (Cons n others)
    show ?thesis
    proof (cases "nodes n")
      case None
      with True Cons show ?thesis by (intro lost [of n others]) (simp_all add: step_successors)
    next
      case (Some nd)
      with True Cons show ?thesis by (intro on [of n others nd]) (simp_all add: step_successors)
    qed
  qed
qed

lemma on_track_END:
  assumes "on_track nodes st current" and "node_type current = END"
  shows "well_ended nodes (None, st)"
proof -
  have "results st = [] \<or> ends nodes (last (results st))"
  proof (cases "results st = []")
    case False
    with assms(1) have "points_to nodes (last (results st)) (node_id current)"
      by (simp add: on_track_def)
    with assms have "ends nodes (last (results st))"
      by (simp add: on_track_def points_to_def ends_def split: list.splits)
    then show ?thesis ..
  qed simp
  with assms(1) show ?thesis
    by (simp add: well_ended_def on_track_def list_all_butlast)
qed

lemma on_track_executed:
  assumes "on_track nodes st current" and "node_type current \<noteq> END"
  shows "chain nodes (results (executed e st current))"
    and "butlast (results (executed e st current)) = results st"
    and "last (results (executed e st current)) = entry current (fst (execute_node e st current))"
    and "chosen nodes (entry current (fst (execute_node e st current))) =
           successors current (result_value (fst (execute_node e st current)))"
    and "succeeded (entry current (fst (execute_node e st current))) =
           success (fst (execute_node e st current))"
proof -
  let ?a = "entry current (fst (execute_node e st current))"
  have res: "results (executed e st current) = results st @ [?a]"
    by (rule results_executed)
  have "results st = [] \<or> points_to nodes (last (results st)) (o_node_id ?a)"
    using assms(1) by (simp add: on_track_def entry_def)
  with assms(1) show "chain nodes (results (executed e st current))"
    unfolding res by (intro chain_snoc) (simp_all add: on_track_def)
  show "butlast (results (executed e st current)) = results st"
    by (simp add: res)
  show "last (results (executed e st current)) = ?a"
    by (simp add: res)
  show "chosen nodes ?a = successors current (result_value (fst (execute_node e st current)))"
    using assms(1) by (intro chosen_entry) (simp add: on_track_def)
  show "succeeded ?a = success (fst (execute_node e st current))"
    using assms(2) by (rule succeeded_entry)
qed

text \<open>What holds of the trace when a walk returns, given what held when it began.\<close>

lemma walk_trace:
  assumes "walk e nodes st current = Some y"
  shows "on_track nodes st current \<longrightarrow> well_ended nodes y"
proof (rule walk.raw_induct
    [where P = "\<lambda>e nodes st current y. on_track nodes st current \<longrightarrow> well_ended nodes y",
     OF _ assms], goal_cases)
  case (1 walk' e nodes st current y)
  show ?case
  proof
    assume tr: "on_track nodes st current"
    show "well_ended nodes y"
    proof (cases "node_type current = END")
      case True
      with 1(2) have "y = (None, st)" by simp
      with tr True show ?thesis by (simp add: on_track_END)
    next
      case False
      let ?r = "fst (execute_node e st current)"
      let ?st2 = "executed e st current"
      let ?a = "entry current ?r"
      note ex = on_track_executed [OF tr False, of e]
      from False 1(2)
      have body: "(case step e nodes st current of Stop err st' \<Rightarrow> Some (err, st')
                   | Continue st' nd \<Rightarrow> walk' e nodes st' nd) = Some y"
        by simp
      have front: "list_all succeeded (butlast (results ?st2))"
        using tr by (simp add: ex(2) on_track_def)
      show ?thesis
      proof (cases rule: step_cases [where e = e and st = st and current = current and nodes = nodes])
        case failed
        with body have y: "y = (None, ?st2)" by simp
        have "ends nodes ?a" using failed(1) by (simp add: ends_def ex(5))
        then show ?thesis using ex(1) front by (simp add: y well_ended_def ex(3))
      next
        case last
        with body have y: "y = (None, ?st2)" by simp
        have "ends nodes ?a" using last(2) by (simp add: ends_def ex(4))
        then show ?thesis using ex(1) front by (simp add: y well_ended_def ex(3))
      next
        case (lost n others)
        with body have y: "y = (Some (KeyError n), ?st2)" by simp
        have "dangling nodes ?a (KeyError n)"
          using lost(1,2,3) by (simp add: dangling_def ex(4,5))
        moreover have "results ?st2 \<noteq> []" by (simp add: results_executed)
        ultimately show ?thesis using ex(1) front by (simp add: y well_ended_def ex(3))
      next
        case (on n others nd)
        with body have run: "walk' e nodes ?st2 nd = Some y" by simp
        have wk: "well_keyed nodes" using tr by (simp add: on_track_def)
        then have id: "node_id nd = n"
          using on(3) by (simp add: well_keyed_def)
        have "list_all succeeded (results ?st2)"
          using tr on(1) by (simp add: results_executed on_track_def ex(5))
        moreover have "points_to nodes (last (results ?st2)) (node_id nd)"
          using on(2) id by (simp add: points_to_def ex(3,4))
        ultimately have "on_track nodes ?st2 nd"
          using wk on(3) id ex(1) by (simp add: on_track_def)
        with 1(1) [OF run] show ?thesis by simp
      qed
    qed
  qed
qed

lemma load_nodes_well_keyed:
  "load_nodes acc ds = Inr nodes \<Longrightarrow> well_keyed acc \<Longrightarrow> well_keyed nodes"
proof (induction ds arbitrary: acc)
  case Nil
  then show ?case by simp
next
  case (Cons d ds)
  from Cons.prems(1) obtain n where
    n: "from_dict d = Inr n" and rest: "load_nodes (acc(node_id n \<mapsto> n)) ds = Inr nodes"
    by (cases "from_dict d") simp_all
  have "well_keyed (acc(node_id n \<mapsto> n))"
    using Cons.prems(2) by (simp add: well_keyed_def)
  with rest show ?case by (rule Cons.IH)
qed

lemma start_well_keyed:
  assumes "start rule = Inr (nodes, n)"
  shows "well_keyed nodes \<and> nodes (node_id n) = Some n"
proof -
  from assms obtain ds s where
    ld: "load_nodes Map.empty ds = Inr nodes" and n: "nodes s = Some n"
    by (auto simp add: start_def split: option.splits sum.splits)
  have wk: "well_keyed nodes"
    using ld by (rule load_nodes_well_keyed) (simp add: well_keyed_def)
  with n show ?thesis by (auto simp add: well_keyed_def)
qed

lemma execute_rule_walk:
  assumes "execute_rule e now ctx rule = Some (res, st)" and "start rule = Inr (nodes, n)"
  shows "walk e nodes fresh n = Some (error_field res, st)"
proof -
  from assms obtain err st' where w: "walk e nodes fresh n = Some (err, st')"
    and f: "finish rule now (err, st') = (res, st)"
    by (auto simp add: execute_rule_def)
  from f have "st' = st \<and> error_field res = err"
    by (cases err) (auto simp add: finish_def error_result_def)
  with w show ?thesis by simp
qed

lemma execute_rule_well_ended:
  assumes "execute_rule e now ctx rule = Some (res, st)" and "start rule = Inr (nodes, n)"
  shows "well_ended nodes (error_field res, st)"
proof -
  have w: "walk e nodes fresh n = Some (error_field res, st)"
    by (rule execute_rule_walk [OF assms])
  have "on_track nodes fresh n"
    using start_well_keyed [OF assms(2)] by (simp add: on_track_def fresh_def)
  with walk_trace [OF w] show ?thesis by simp
qed

lemma walk_unfold:
  assumes "node_type current \<noteq> END"
  shows "walk e nodes st current =
           (if \<not> success (fst (execute_node e st current))
            then Some (None, executed e st current)
            else (case successors current (result_value (fst (execute_node e st current))) of
                    [] \<Rightarrow> Some (None, executed e st current)
                  | n # others \<Rightarrow>
                      (case nodes n of
                         None \<Rightarrow> Some (Some (KeyError n), executed e st current)
                       | Some nd \<Rightarrow> walk e nodes (executed e st current) nd)))"
  using assms
  by (subst walk.simps) (simp add: step_successors split: list.split option.split)

text \<open>
  C5. After a node that succeeded the walk takes the successor list that the
  specification names (\<open>next_true\<close> of a COMPARE node whose result is true, \<open>next_false\<close>
  of one whose result is not, \<open>next\<close> of a node of another type). If the list is empty
  the walk returns there, with the entry of that node the last of the trace. If it is
  not, the walk goes on from the node that the first id names, and from no other; the
  rest of the list is never looked at. (An id that names no node of the rule ends the
  run with a key error.) This holds of every state, whether or not the walk returns.
  Hence in a run that returns every trace entry but the last belongs to a node that
  succeeded and is followed by the entry of the node named first in its list, and a run
  without an exception ends only at a node that failed, at one whose list is empty, or
  in front of an END node.
\<close>

theorem walk_takes_first_successor:
  "(node_type current \<noteq> END \<and> success (fst (execute_node e st current)) \<longrightarrow>
      walk e nodes st current =
        (case successors current (result_value (fst (execute_node e st current))) of
           [] \<Rightarrow> Some (None, executed e st current)
         | n # others \<Rightarrow>
             (case nodes n of
                None \<Rightarrow> Some (Some (KeyError n), executed e st current)
              | Some nd \<Rightarrow> walk e nodes (executed e st current) nd))) \<and>
   (execute_rule e now ctx rule = Some (res, st') \<longrightarrow>
      chain (graph rule) (results st') \<and>
      list_all succeeded (butlast (results st')) \<and>
      (error_field res = None \<longrightarrow>
         results st' = [] \<or> ends (graph rule) (last (results st'))))"
proof (intro conjI impI)
  assume "node_type current \<noteq> END \<and> success (fst (execute_node e st current))"
  then show "walk e nodes st current =
        (case successors current (result_value (fst (execute_node e st current))) of
           [] \<Rightarrow> Some (None, executed e st current)
         | n # others \<Rightarrow>
             (case nodes n of
                None \<Rightarrow> Some (Some (KeyError n), executed e st current)
              | Some nd \<Rightarrow> walk e nodes (executed e st current) nd))"
    by (simp add: walk_unfold)
next
  assume run: "execute_rule e now ctx rule = Some (res, st')"
  have "chain (graph rule) (results st') \<and> list_all succeeded (butlast (results st')) \<and>
        (error_field res = None \<longrightarrow> results st' = [] \<or> ends (graph rule) (last (results st')))"
  proof (cases "start rule")
    case (Inl err)
    with run have "st' = fresh"
      by (simp add: execute_rule_def)
    then show ?thesis by (simp add: fresh_def)
  next
    case (Inr p)
    then obtain nodes n where st: "start rule = Inr (nodes, n)"
      by (cases p) simp
    then have g: "graph rule = nodes" by (simp add: graph_def)
    from execute_rule_well_ended [OF run st] show ?thesis
      by (auto simp add: g well_ended_def)
  qed
  then show "chain (graph rule) (results st')"
    and "list_all succeeded (butlast (results st'))"
    and "error_field res = None \<Longrightarrow> results st' = [] \<or> ends (graph rule) (last (results st'))"
    by simp_all
qed

lemma start_branch_rule:
  "start branch_rule =
     Inr ([''c'' \<mapsto> fork_node, ''low'' \<mapsto> rest_node,
           ''high'' \<mapsto> \<lparr>node_id = ''high'', node_type = PUBLISH,
                          node_properties = [''action'' \<mapsto> PyStr ''email''],
                          node_next = [''low''], node_next_true = [], node_next_false = []\<rparr>],
          fork_node)"
  by (simp add: start_def branch_rule_def rule_of_def node_of_def from_dict_def NodeType_of_def
      fork_node_def rest_node_def)

text \<open>
  The run of \<open>branch_rule\<close>, step by step: \<open>3 > 5\<close> is false, so the walk goes from the
  COMPARE node to \<open>low\<close>, the first id of \<open>next_false\<close>; the AND node there has no
  successor, and the walk returns. The node \<open>high\<close>, second in that list and first in
  \<open>next_true\<close>, does not run.
\<close>

theorem walk_takes_first_successor_witness:
  "walk quiet_env (graph branch_rule) fresh fork_node =
     Some (None, executed quiet_env (executed quiet_env fresh fork_node) rest_node) \<and>
   map (\<lambda>a. (o_node_id a, o_result a))
     (results (executed quiet_env (executed quiet_env fresh fork_node) rest_node)) =
     [(''c'', PyBool False), (''low'', PyBool True)] \<and>
   (\<exists>res st. execute_rule quiet_env 0 Map.empty branch_rule = Some (res, st) \<and>
      error_field res = None \<and> chain (graph branch_rule) (results st) \<and>
      list_all succeeded (butlast (results st)) \<and>
      ends (graph branch_rule) (last (results st)))"
proof -
  let ?s1 = "executed quiet_env fresh fork_node"
  let ?s2 = "executed quiet_env ?s1 rest_node"
  have low: "graph branch_rule ''low'' = Some rest_node"
    by (simp add: graph_def start_branch_rule)
  have t1: "node_type fork_node \<noteq> END \<and> success (fst (execute_node quiet_env fresh fork_node))"
    by code_simp
  have v1: "successors fork_node (result_value (fst (execute_node quiet_env fresh fork_node))) =
      [''low'', ''high'']"
    by code_simp
  have t2: "node_type rest_node \<noteq> END \<and> success (fst (execute_node quiet_env ?s1 rest_node))"
    by code_simp
  have v2: "successors rest_node (result_value (fst (execute_node quiet_env ?s1 rest_node))) = []"
    by code_simp
  have tr: "map (\<lambda>a. (o_node_id a, o_result a)) (results ?s2) =
      [(''c'', PyBool False), (''low'', PyBool True)]"
    by code_simp
  note step1 = walk_takes_first_successor
    [where current = fork_node and e = quiet_env and st = fresh and nodes = "graph branch_rule",
      THEN conjunct1, rule_format, OF t1]
  note step2 = walk_takes_first_successor
    [where current = rest_node and e = quiet_env and st = ?s1 and nodes = "graph branch_rule",
      THEN conjunct1, rule_format, OF t2]
  have w: "walk quiet_env (graph branch_rule) fresh fork_node = Some (None, ?s2)"
    using step1 step2 by (simp add: v1 v2 low)
  then have run: "execute_rule quiet_env 0 Map.empty branch_rule =
      Some (finish branch_rule 0 (None, ?s2))"
    by (simp add: execute_rule_def start_branch_rule graph_def)
  obtain res where res: "finish branch_rule 0 (None, ?s2) = (res, ?s2)"
    and err: "error_field res = None"
    by (simp add: finish_def)
  from tr have ne: "results ?s2 \<noteq> []" by auto
  from run res have run': "execute_rule quiet_env 0 Map.empty branch_rule = Some (res, ?s2)"
    by simp
  note all = walk_takes_first_successor
    [where e = quiet_env and now = 0 and ctx = Map.empty and rule = branch_rule and res = res
      and st' = ?s2, THEN conjunct2, rule_format, OF run']
  from all err ne have "chain (graph branch_rule) (results ?s2) \<and>
      list_all succeeded (butlast (results ?s2)) \<and>
      ends (graph branch_rule) (last (results ?s2))"
    by simp
  with run' err have "\<exists>res st. execute_rule quiet_env 0 Map.empty branch_rule = Some (res, st) \<and>
      error_field res = None \<and> chain (graph branch_rule) (results st) \<and>
      list_all succeeded (butlast (results st)) \<and>
      ends (graph branch_rule) (last (results st))"
    by blast
  with w tr show ?thesis by simp
qed

lemma warm_run:
  "map_option (\<lambda>(res, st). (triggered res, error_field res, map o_node_id (results st), published st)) (execute_rule warm_env 0 Map.empty temperature_rule) =
   Some (True, None, [''get_temp1'', ''get_temp2'', ''compare_temps'', ''publish_alert''],
     [(PyStr ''email'', PyDict [(''body'', PyStr ''Temperature sensor 1 is higher than sensor 2''),
                                         (''to'', PyStr ''alerts@example.com'')])])"
  by code_simp

subsection \<open>The verdict\<close>

lemma py_eq_PyStr:
  "py_eq v (PyStr s) = (v = PyStr s)"
  by (cases v) auto

lemma any_published_iff:
  "any_published rs =
     (\<exists>r\<in>set rs. o_type r = ''publish'' \<and> o_result r = PyStr ''published'')"
  by (auto simp add: any_published_def list_ex_iff py_eq_PyStr)

text \<open>
  C3. When \<open>execute_rule\<close> returns a result with a trace, that is the trace of the run,
  and \<open>triggered\<close> is true exactly when some entry of it is of type \<open>publish\<close> and has
  the value \<open>published\<close>. A run that an exception ended returns no trace, and
  \<open>triggered\<close> is false.
\<close>

theorem triggered_iff_published:
  assumes "execute_rule e now ctx rule = Some (res, st)"
  shows "case node_results res of
           Some trace \<Rightarrow>
             trace = results st \<and> error_field res = None \<and>
             triggered res =
               (\<exists>r\<in>set trace. o_type r = ''publish'' \<and> o_result r = PyStr ''published'')
         | None \<Rightarrow> \<not> triggered res \<and> error_field res \<noteq> None"
proof (cases "start rule")
  case (Inl err)
  with assms show ?thesis
    by (auto simp add: execute_rule_def error_result_def)
next
  case (Inr p)
  with assms obtain err st' where f: "finish rule now (err, st') = (res, st)"
    by (cases p) (auto simp add: execute_rule_def)
  then show ?thesis
    by (cases err) (auto simp add: finish_def error_result_def any_published_iff)
qed

lemma warm_verdict:
  "verdict (execute_rule warm_env 0 Map.empty temperature_rule) =
     Some (True, None,
       [(''get_temp1'', PyInt 35), (''get_temp2'', PyInt 20),
        (''compare_temps'', PyBool True), (''publish_alert'', PyStr ''published'')],
       [(PyStr ''email'',
         PyDict [(''body'', PyStr ''Temperature sensor 1 is higher than sensor 2''),
                 (''to'', PyStr ''alerts@example.com'')])])"
  by code_simp

theorem triggered_iff_published_witness:
  "\<exists>res st. execute_rule warm_env 0 Map.empty temperature_rule = Some (res, st) \<and>
     node_results res = Some (results st) \<and> triggered res \<and>
     (\<exists>r\<in>set (results st). o_type r = ''publish'' \<and> o_result r = PyStr ''published'')"
proof -
  obtain res st where run: "execute_rule warm_env 0 Map.empty temperature_rule = Some (res, st)"
    and tr: "triggered res" and err: "error_field res = None"
    using warm_verdict by (auto simp add: verdict_def)
  from triggered_iff_published [OF run] err tr
  have "node_results res = Some (results st) \<and>
        (\<exists>r\<in>set (results st). o_type r = ''publish'' \<and> o_result r = PyStr ''published'')"
    by (cases "node_results res") auto
  with run tr show ?thesis by blast
qed

subsection \<open>Failure\<close>

lemma get_data_without_value:
  assumes "node_type current = GET_DATA"
    and "get_latest_value e (prop_get current ''topic'') = PyNone"
  shows "\<not> success (fst (execute_node e st current))"
  using assms
  by (simp add: execute_node_def execute_get_data_node_def failed_def Let_def)

lemma failed_node_publishes_nothing:
  assumes "\<not> success (fst (execute_node e st current))"
  shows "published (snd (execute_node e st current)) = published st"
  using assms
  by (cases "node_type current")
     (simp_all add: execute_node_def execute_publish_node_def Let_def split: if_splits)

lemma any_published_snoc:
  "any_published (rs @ [a]) =
     (any_published rs \<or> o_type a = ''publish'' \<and> o_result a = PyStr ''published'')"
  by (auto simp add: any_published_iff)

text \<open>
  C6, as the code has it. When a node fails (as a GET_DATA node does whose topic has
  no telemetry value), the walk returns at once: the entry of that node is the last of
  the trace, no successor runs, and nothing more is published. The verdict is then
  that of the entries before it: \<open>triggered\<close> is true exactly when a PUBLISH node
  earlier in the run had reported \<open>published\<close>, and false otherwise.
\<close>

theorem failed_node_stops_walk:
  assumes "node_type current \<noteq> END"
    and "\<not> success (fst (execute_node e st current)) \<or>
         node_type current = GET_DATA \<and>
         get_latest_value e (prop_get current ''topic'') = PyNone"
  shows "walk e nodes st current = Some (None, executed e st current) \<and>
         results (executed e st current) =
           results st @ [entry current (fst (execute_node e st current))] \<and>
         \<not> succeeded (entry current (fst (execute_node e st current))) \<and>
         published (executed e st current) = published st \<and>
         triggered (fst (finish rule now (None, executed e st current))) =
           any_published (results st)"
proof -
  let ?a = "entry current (fst (execute_node e st current))"
  from assms(2) have bad: "\<not> success (fst (execute_node e st current))"
    using get_data_without_value [of current e st] by blast
  then have "step e nodes st current = Stop None (executed e st current)"
    by (simp add: step_eq)
  with assms(1) have w: "walk e nodes st current = Some (None, executed e st current)"
    by (simp add: walk.simps)
  have res: "results (executed e st current) = results st @ [?a]"
    by (rule results_executed)
  have no: "\<not> succeeded ?a"
    using bad assms(1) by (simp add: succeeded_entry)
  then have "o_result ?a \<noteq> PyStr ''published''"
    by (simp add: succeeded_def)
  then have "any_published (results (executed e st current)) = any_published (results st)"
    by (simp add: res any_published_snoc)
  moreover have "published (executed e st current) = published st"
    using bad by (simp add: executed_def failed_node_publishes_nothing)
  ultimately show ?thesis
    using w res no by (simp add: finish_def)
qed

text \<open>
  In the run of \<open>publish_then_read\<close>, after the PUBLISH node: the GET_DATA node finds no
  value, the walk returns there, and the verdict stays true.
\<close>

theorem failed_node_stops_walk_witness:
  "walk quiet_env Map.empty
     \<lparr>execution_context = [''p'' \<mapsto> PyStr ''published''],
      results = [\<lparr>o_node_id = ''p'', o_type = ''publish'', o_result = PyStr ''published'',
                  o_details = Details []\<rparr>],
      published = [(PyStr ''email'', PyDict [])]\<rparr> read_node =
   Some (None,
     \<lparr>execution_context = [''p'' \<mapsto> PyStr ''published'', ''g'' \<mapsto> PyNone],
      results = [\<lparr>o_node_id = ''p'', o_type = ''publish'', o_result = PyStr ''published'',
                  o_details = Details []\<rparr>,
                 \<lparr>o_node_id = ''g'', o_type = ''get_data'', o_result = PyNone,
                  o_details = Details [(''topic'', PyStr ''t''), (''value'', PyNone)]\<rparr>],
      published = [(PyStr ''email'', PyDict [])]\<rparr>) \<and>
   triggered (fst (finish publish_then_read 0 (None,
     executed quiet_env
       \<lparr>execution_context = [''p'' \<mapsto> PyStr ''published''],
        results = [\<lparr>o_node_id = ''p'', o_type = ''publish'', o_result = PyStr ''published'',
                    o_details = Details []\<rparr>],
        published = [(PyStr ''email'', PyDict [])]\<rparr> read_node)))"
proof -
  let ?st = "\<lparr>execution_context = [''p'' \<mapsto> PyStr ''published''],
      results = [\<lparr>o_node_id = ''p'', o_type = ''publish'', o_result = PyStr ''published'',
                  o_details = Details []\<rparr>],
      published = [(PyStr ''email'', PyDict [])]\<rparr>"
  have ty: "node_type read_node \<noteq> END"
    by (simp add: read_node_def)
  have none: "\<not> success (fst (execute_node quiet_env ?st read_node)) \<or>
      node_type read_node = GET_DATA \<and>
      get_latest_value quiet_env (prop_get read_node ''topic'') = PyNone"
    by (simp add: read_node_def quiet_env_def prop_get_def get_latest_value_def)
  have ex: "executed quiet_env ?st read_node =
      \<lparr>execution_context = [''p'' \<mapsto> PyStr ''published'', ''g'' \<mapsto> PyNone],
       results = [\<lparr>o_node_id = ''p'', o_type = ''publish'', o_result = PyStr ''published'',
                   o_details = Details []\<rparr>,
                  \<lparr>o_node_id = ''g'', o_type = ''get_data'', o_result = PyNone,
                   o_details = Details [(''topic'', PyStr ''t''), (''value'', PyNone)]\<rparr>],
       published = [(PyStr ''email'', PyDict [])]\<rparr>"
    by (simp add: executed_def execute_node_def execute_get_data_node_def read_node_def
        quiet_env_def prop_get_def get_latest_value_def entry_def Let_def)
  have ap: "any_published (results ?st)"
    by (simp add: any_published_def)
  note t = failed_node_stops_walk [OF ty none, of Map.empty publish_then_read 0]
  from t have a: "walk quiet_env Map.empty ?st read_node =
      Some (None, executed quiet_env ?st read_node)"
    by (rule conjunct1)
  from t have b: "triggered (fst (finish publish_then_read 0
      (None, executed quiet_env ?st read_node))) = any_published (results ?st)"
    by (elim conjE)
  from a b ap show ?thesis
    unfolding ex by simp
qed

text \<open>
  C6 as stated fails: in \<open>publish_then_read\<close> the GET_DATA node fails and ends the
  walk, and the result has \<open>triggered = true\<close>, as the PUBLISH node before it had
  succeeded.
\<close>

theorem failed_run_still_triggered:
  "verdict (execute_rule quiet_env 0 Map.empty publish_then_read) =
     Some (True, None, [(''p'', PyStr ''published''), (''g'', PyNone)],
           [(PyStr ''email'', PyDict [])])"
  by code_simp

subsection \<open>Cycles\<close>

text \<open>
  C1 as stated fails: the walk of \<open>revisit_rule\<close> comes back to the PUBLISH node and to
  the COMPARE node, runs each a second time and publishes twice; it ends only because
  the COMPARE node then fails. No error is reported, and \<open>triggered\<close> is true.
\<close>

theorem revisited_node_runs_again:
  "verdict (execute_rule quiet_env 0 Map.empty revisit_rule) =
     Some (True, None,
       [(''p'', PyStr ''published''), (''c'', PyBool True),
        (''p'', PyStr ''published''), (''c'', PyNone)],
       [(PyStr ''email'', PyDict []), (PyStr ''email'', PyDict [])])"
  by code_simp

lemma empty_and_succeeds:
  assumes "node_type n = AND" and "node_properties n ''inputs'' = Some (PyList [])"
  shows "success (fst (execute_node e st n))"
  using assms by (simp add: execute_node_def execute_logical_node_def Let_def)

text \<open>A walk only adds to the trace, and the one exception it raises is the key error.\<close>

lemma walk_results:
  assumes "walk e nodes st current = Some y"
  shows "(\<exists>rest. results (snd y) = results st @ rest) \<and>
         (fst y = None \<or> (\<exists>n. fst y = Some (KeyError n) \<and> nodes n = None))"
proof (rule walk.raw_induct
    [where P = "\<lambda>e nodes st current y.
       (\<exists>rest. results (snd y) = results st @ rest) \<and>
       (fst y = None \<or> (\<exists>n. fst y = Some (KeyError n) \<and> nodes n = None))",
     OF _ assms], goal_cases)
  case (1 walk' e nodes st current y)
  show ?case
  proof (cases "node_type current = END")
    case True
    with 1(2) have "y = (None, st)" by simp
    then show ?thesis by simp
  next
    case False
    with 1(2)
    have body: "(case step e nodes st current of Stop err st' \<Rightarrow> Some (err, st')
                 | Continue st' nd \<Rightarrow> walk' e nodes st' nd) = Some y"
      by simp
    show ?thesis
    proof (cases rule: step_cases [where e = e and st = st and current = current and nodes = nodes])
      case failed
      with body have "y = (None, executed e st current)" by simp
      then show ?thesis by (simp add: results_executed)
    next
      case last
      with body have "y = (None, executed e st current)" by simp
      then show ?thesis by (simp add: results_executed)
    next
      case (lost n others)
      with body have "y = (Some (KeyError n), executed e st current)" by simp
      with lost(3) show ?thesis by (simp add: results_executed)
    next
      case (on n others nd)
      with body have "walk' e nodes (executed e st current) nd = Some y" by simp
      from 1(1) [OF this] show ?thesis by (auto simp add: results_executed)
    qed
  qed
qed

text \<open>A walk that is in a set of nodes which it cannot leave has no result.\<close>

lemma walk_closed_set:
  assumes closed: "\<forall>n\<in>S. \<forall>s. node_type n \<noteq> END \<and> success (fst (execute_node e s n)) \<and>
      (\<exists>i others n'. successors n (result_value (fst (execute_node e s n))) = i # others \<and>
         nodes i = Some n' \<and> n' \<in> S)"
    and "current \<in> S"
  shows "walk e nodes st current = None"
proof (rule ccontr)
  assume "walk e nodes st current \<noteq> None"
  then obtain y where y: "walk e nodes st current = Some y" by auto
  have "e = e \<longrightarrow> nodes = nodes \<longrightarrow> current \<notin> S"
  proof (rule walk.raw_induct
      [where P = "\<lambda>e' nodes' st current y. e' = e \<longrightarrow> nodes' = nodes \<longrightarrow> current \<notin> S",
       OF _ y], goal_cases)
    case (1 walk' e' nodes' st current y)
    show ?case
    proof (intro impI notI)
      assume e: "e' = e" and n: "nodes' = nodes" and "current \<in> S"
      with closed obtain i others n' where
        ne: "node_type current \<noteq> END" and ok: "success (fst (execute_node e st current))" and
        sc: "successors current (result_value (fst (execute_node e st current))) = i # others" and
        i: "nodes i = Some n'" and n': "n' \<in> S"
        by blast
      have "step e nodes st current = Continue (executed e st current) n'"
        by (simp add: step_successors ok sc i)
      with 1(2) ne e n have "walk' e nodes (executed e st current) n' = Some y"
        by simp
      from 1(1) [OF this] n' show False by simp
    qed
  qed
  with assms(2) show False by simp
qed

text \<open>
  C1, as the code has it. The walk keeps no record of the nodes it has been at. Whenever
  it is at a node other than END it executes the node and adds its entry to the trace,
  whatever the trace holds already, so also when the node has been executed before in
  the run; and the only exception a walk ends with is the key error for a successor id
  that names no node: there is no cycle error. Nor is there a bound. Let \<open>S\<close> be a set of
  nodes, none of them END, each of which succeeds in every state and then has as first
  successor a node of \<open>S\<close>: a walk that is at a node of \<open>S\<close> never returns, and neither
  does the run of a rule whose start node is in \<open>S\<close>.
\<close>

theorem walk_has_no_cycle_guard:
  "(node_type current \<noteq> END \<and> walk e nodes st current = Some (err, st') \<longrightarrow>
      (\<exists>rest. results st' =
         results st @ entry current (fst (execute_node e st current)) # rest) \<and>
      (err = None \<or> (\<exists>n. err = Some (KeyError n) \<and> nodes n = None))) \<and>
   ((\<forall>n\<in>S. \<forall>s. node_type n \<noteq> END \<and> success (fst (execute_node e s n)) \<and>
        (\<exists>i others n'. successors n (result_value (fst (execute_node e s n))) = i # others \<and>
           nodes i = Some n' \<and> n' \<in> S)) \<and>
    current \<in> S \<longrightarrow>
      walk e nodes st current = None \<and>
      (start rule = Inr (nodes, current) \<longrightarrow> execute_rule e now ctx rule = None))"
proof (intro conjI impI)
  assume a: "node_type current \<noteq> END \<and> walk e nodes st current = Some (err, st')"
  from walk_results [of e nodes st current "(err, st')"] a
  show "err = None \<or> (\<exists>n. err = Some (KeyError n) \<and> nodes n = None)"
    by simp
  let ?st2 = "executed e st current"
  from a have ne: "node_type current \<noteq> END" and w: "walk e nodes st current = Some (err, st')"
    by simp_all
  note u = walk_unfold [OF ne, of e nodes st]
  have "\<exists>rest. results st' = results ?st2 @ rest"
  proof (cases rule: step_cases [where e = e and st = st and current = current and nodes = nodes])
    case failed
    from w failed(1) have "st' = ?st2" by (simp add: u)
    then show ?thesis by simp
  next
    case last
    from w last(1,2) have "st' = ?st2" by (simp add: u)
    then show ?thesis by simp
  next
    case (lost n others)
    from w lost(1,2,3) have "st' = ?st2" by (simp add: u)
    then show ?thesis by simp
  next
    case (on n others nd)
    from w on(1,2,3) have "walk e nodes ?st2 nd = Some (err, st')" by (simp add: u)
    from walk_results [OF this] show ?thesis by simp
  qed
  then show "\<exists>rest. results st' =
      results st @ entry current (fst (execute_node e st current)) # rest"
    by (simp add: results_executed)
next
  assume c: "(\<forall>n\<in>S. \<forall>s. node_type n \<noteq> END \<and> success (fst (execute_node e s n)) \<and>
        (\<exists>i others n'. successors n (result_value (fst (execute_node e s n))) = i # others \<and>
           nodes i = Some n' \<and> n' \<in> S)) \<and> current \<in> S"
  then show "walk e nodes st current = None"
    by (intro walk_closed_set [where S = S]) simp_all
  from c have "walk e nodes fresh current = None"
    by (intro walk_closed_set [where S = S]) simp_all
  then show "start rule = Inr (nodes, current) \<Longrightarrow> execute_rule e now ctx rule = None"
    by (simp add: execute_rule_def)
qed

lemma start_revisit_rule:
  "start revisit_rule = Inr ([''p'' \<mapsto> again_node, ''c'' \<mapsto> test_node], again_node)"
  by (simp add: start_def revisit_rule_def rule_of_def node_of_def from_dict_def NodeType_of_def
      again_node_def test_node_def)

lemma start_two_cycle_rule:
  "start two_cycle_rule =
     Inr ([''a'' \<mapsto> cycle_node ''a'' ''b'', ''b'' \<mapsto> cycle_node ''b'' ''a''],
          cycle_node ''a'' ''b'')"
  by (simp add: start_def two_cycle_rule_def rule_of_def node_of_def from_dict_def
      NodeType_of_def cycle_node_def)

text \<open>
  In \<open>again_run\<close> both nodes of \<open>revisit_rule\<close> have been executed and the walk is at the
  PUBLISH node again: it returns, without an error, and the trace has a second entry
  of that node. The two nodes of \<open>two_cycle_rule\<close> are a set that the walk cannot
  leave, and the run of that rule never returns.
\<close>

theorem walk_has_no_cycle_guard_witness:
  "map o_node_id (results again_run) = [''p'', ''c''] \<and>
   o_node_id (entry again_node (fst (execute_node quiet_env again_run again_node))) = ''p'' \<and>
   (\<exists>st' rest. walk quiet_env (graph revisit_rule) again_run again_node = Some (None, st') \<and>
      results st' =
        results again_run @
          entry again_node (fst (execute_node quiet_env again_run again_node)) # rest) \<and>
   walk quiet_env (graph two_cycle_rule) fresh (cycle_node ''a'' ''b'') = None \<and>
   execute_rule quiet_env 0 Map.empty two_cycle_rule = None"
proof -
  let ?s1 = "executed quiet_env again_run again_node"
  let ?s2 = "executed quiet_env ?s1 test_node"
  let ?S = "{cycle_node ''a'' ''b'', cycle_node ''b'' ''a''}"
  let ?G = "[''a'' \<mapsto> cycle_node ''a'' ''b'', ''b'' \<mapsto> cycle_node ''b'' ''a'']"
  have tr: "map o_node_id (results again_run) = [''p'', ''c'']"
    by code_simp
  have id: "o_node_id (entry again_node (fst (execute_node quiet_env again_run again_node))) = ''p''"
    by (simp add: entry_def again_node_def)
  have g: "graph revisit_rule = [''p'' \<mapsto> again_node, ''c'' \<mapsto> test_node]"
    by (simp add: graph_def start_revisit_rule)
  have t1: "node_type again_node \<noteq> END \<and>
      success (fst (execute_node quiet_env again_run again_node))"
    by code_simp
  have v1: "successors again_node
      (result_value (fst (execute_node quiet_env again_run again_node))) = [''c'']"
    by code_simp
  have t2: "node_type test_node \<noteq> END \<and> \<not> success (fst (execute_node quiet_env ?s1 test_node))"
    by code_simp
  have "walk quiet_env (graph revisit_rule) ?s1 test_node = Some (None, ?s2)"
    using t2 by (simp add: walk_unfold)
  then have w: "walk quiet_env (graph revisit_rule) again_run again_node = Some (None, ?s2)"
    using t1 by (simp add: walk_unfold [of again_node] v1 g)
  note no_guard = walk_has_no_cycle_guard
    [where current = again_node and e = quiet_env and nodes = "graph revisit_rule"
      and st = again_run and err = None and st' = ?s2, THEN conjunct1, rule_format]
  from no_guard t1 w
  have "\<exists>rest. results ?s2 =
      results again_run @
        entry again_node (fst (execute_node quiet_env again_run again_node)) # rest"
    by simp
  with w have again: "\<exists>st' rest.
      walk quiet_env (graph revisit_rule) again_run again_node = Some (None, st') \<and>
      results st' =
        results again_run @
          entry again_node (fst (execute_node quiet_env again_run again_node)) # rest"
    by blast
  have gc: "graph two_cycle_rule = ?G"
    by (simp add: graph_def start_two_cycle_rule)
  have closed: "\<forall>n\<in>?S. \<forall>s. node_type n \<noteq> END \<and> success (fst (execute_node quiet_env s n)) \<and>
      (\<exists>i others n'. successors n (result_value (fst (execute_node quiet_env s n))) = i # others \<and>
         ?G i = Some n' \<and> n' \<in> ?S)"
    by (simp add: empty_and_succeeds successors_def cycle_node_def)
  note never = walk_has_no_cycle_guard
    [where S = ?S and e = quiet_env and nodes = ?G and current = "cycle_node ''a'' ''b''"
      and st = fresh and rule = two_cycle_rule and now = 0 and ctx = Map.empty,
      THEN conjunct2, rule_format]
  from closed have "walk quiet_env ?G fresh (cycle_node ''a'' ''b'') = None \<and>
      (start two_cycle_rule = Inr (?G, cycle_node ''a'' ''b'') \<longrightarrow>
       execute_rule quiet_env 0 Map.empty two_cycle_rule = None)"
    by (intro never) simp
  then have "walk quiet_env (graph two_cycle_rule) fresh (cycle_node ''a'' ''b'') = None \<and>
      execute_rule quiet_env 0 Map.empty two_cycle_rule = None"
    by (simp add: gc start_two_cycle_rule)
  with tr id again show ?thesis by simp
qed

end
